theory Spec2Isabelle
  imports Main "HOL-Library.AList"
begin

section \<open>The downloader of package dl\<close>

text \<open>
  The repository holds dl.go in two revisions. The definitions below follow the later
  one (the file src/unnamed/part\_002 of the repository copy; the earlier one is
  src/dl.go), which is the one that dl\_test.go and the README describe: it has the
  constants DefaultBaseDir and FilePerm, the errors ErrAlreadyStopped and ErrInvalidURL,
  int64 counters in selfWriter and a rate kept in an atomic value. The earlier revision
  differs from it in the places the properties below are about: download does not check
  the URL, NewDownloader keeps a concurrency of 0, multiDownload advances its cursor by
  \<open>partSize + 1\<close> and sends \<open>bytes=lo-hi\<close>, singleDownload does not check the status,
  merge opens the destination without O\_TRUNC, and calcRate formats integers without
  decimals. \<open>Stop\<close> and \<open>Start\<close> are the same in both.

  Conventions of the embedding.
  \<^item> A Go \<open>error\<close> is an \<open>error option\<close>: \<open>None\<close> is \<open>nil\<close>.
  \<^item> An \<open>int64\<close> is an \<open>int\<close>. The sums computed on the paths studied here are
    bounded by the content length or by the number of bytes received, so no wrap-around
    is written out.
  \<^item> Every call that leaves the process (HTTP, file system), every observer callback and
    every access to the cancel registry is recorded as an \<open>event\<close>; a function returns
    the events it caused, in program order, deferred calls last.
  \<^item> What the outside world answers is read from a \<open>world\<close>: the HEAD and GET results,
    the outcome of every file-system call, and the moment at which a concurrent call of
    \<open>Stop\<close> becomes visible.
  \<^item> The workers of multiDownload are goroutines. The model runs each worker to its end
    when it is spawned (one of the schedules of the program) and keeps the events of each
    worker in a list of its own.
\<close>

subsection \<open>Errors\<close>

datatype error =
    ErrAlreadyStopped
  | ErrInvalidURL
  | ErrInvalidConcurrency
  | ErrGetFileInfo
  | ErrInvalidContentLength int
  | ErrCreateCacheDir
  | ErrMergeParts error
  | ErrCreateRequest
  | ErrDownloadPart nat
  | ErrStatusPart int nat
  | ErrOpenPartFile
  | ErrWritePart nat
  | ErrCreateDestination
  | ErrOpenPart nat
  | ErrCopyPart nat
  | ErrClosePart nat
  | ErrRemovePart nat
  | ErrDownloadFile
  | ErrStatus int
  | ErrCreateFile
  | ErrWriteFile
  | PanicDivideByZero

type_synonym result = "error option"

subsection \<open>Library functions used by the source\<close>

text \<open>\<open>%d\<close> of fmt.Sprintf on an integer.\<close>

definition digit :: "nat \<Rightarrow> char" where
  "digit d = ''0123456789'' ! (d mod 10)"

fun utoa :: "nat \<Rightarrow> string" where
  "utoa n = (if n < 10 then [digit n] else utoa (n div 10) @ [digit n])"

declare utoa.simps [simp del]

definition itoa :: "int \<Rightarrow> string" where
  "itoa i = (if i < 0 then CHR ''-'' # utoa (nat (- i)) else utoa (nat i))"

text \<open>filepath.Base and filepath.Join on a Unix path (Join without the final Clean).\<close>

definition filepath_Base :: "string \<Rightarrow> string" where
  "filepath_Base p =
     (if p = [] then ''.''
      else let q = dropWhile (\<lambda>c. c = CHR ''/'') (rev p)
           in if q = [] then ''/'' else rev (takeWhile (\<lambda>c. c \<noteq> CHR ''/'') q))"

definition filepath_Join :: "string \<Rightarrow> string \<Rightarrow> string" where
  "filepath_Join a b = (if a = [] then b else if b = [] then a else a @ ''/'' @ b)"

text \<open>Integer division of Go: the quotient is truncated towards zero.\<close>

definition go_div :: "int \<Rightarrow> int \<Rightarrow> int" where
  "go_div a b = sgn a * sgn b * (\<bar>a\<bar> div \<bar>b\<bar>)"

subsection \<open>Events and the outside world\<close>

datatype ctx = PartCtx nat | SingleCtx

datatype flag = O_CREATE | O_WRONLY | O_TRUNC | O_APPEND

datatype event =
    OnProgress int int string
  | OnStart int string
  | OnFinished string
  | OnCanceled string
  | SinkWrite nat
  | HttpHead string
  | HttpGet string "(int \<times> int) option"
  | BodyClose
  | GoCalcRate
  | CancelRate
  | CancelCalled ctx
  | MapStore string ctx
  | MapDelete string
  | OsMkdirAll string
  | OsReadFile string
  | OsOpenFile string "flag list"
  | OsOpen string
  | FileWrite string nat
  | IoCopy string string
  | FileClose string
  | OsRemove string
  | OsRemoveAll string
  | WgWait

text \<open>
  \<open>HttpGet u (Some (a, b))\<close> is a GET of \<open>u\<close> with the header \<open>Range: bytes=a-b\<close>;
  \<open>HttpGet u None\<close> carries no Range header. \<open>CancelCalled c\<close> is a call of the cancel
  function of the context \<open>c\<close>.
\<close>

datatype head_result = HeadErr | HeadOk int string int

text \<open>
  A GET either fails in the transport, or returns a status, a Content-Length and a body.
  The body is the list of chunks that io.CopyBuffer reads, and how the copy ends: at the
  end of the stream, by a read error (a cancelled request is one), or by a failed write
  of one more chunk to the file.
\<close>

datatype body_end = EOF | ReadErr | WriteErr string

datatype get_result = GetErr | GetOk int int "string list" body_end

datatype fsop =
    MkdirAllPartDir
  | OpenPartFile nat
  | MergeOpenDest
  | MergeOpenPart nat
  | MergeCopy nat
  | MergeClosePart nat
  | MergeRemove nat
  | RemoveAllPartDir
  | SingleOpenDest

record world =
  head :: head_result
  request_err :: bool
  get_part :: "nat \<Rightarrow> get_result"
  get_single :: get_result
  read_part :: "nat \<Rightarrow> string option"
  fails :: "fsop \<Rightarrow> bool"
  stop_at :: "nat option"

text \<open>
  \<open>read_part w i\<close> is what os.ReadFile returns for the file of part \<open>i\<close> (\<open>None\<close>: an
  error, as when the file does not exist). \<open>stop_at w = Some k\<close>: another goroutine
  calls \<open>Stop\<close> just before the \<open>k\<close>-th time the run looks at the stop signal
  (counted from 0); \<open>None\<close>: nobody calls \<open>Stop\<close> during the run.
\<close>

subsection \<open>selfWriter\<close>

record selfWriter =
  loaded :: int
  total :: int
  accPacketSize :: int
  rate :: string
  onProgress :: bool

text \<open>
  An observer field holds \<open>True\<close> when a callback is registered (non-nil). The field
  \<open>rate\<close> is the string stored in the atomic value; \<open>Write\<close> reads an empty atomic
  value as \<open>0.00 MB/s\<close>, which is also what NewDownloader and \<open>init\<close> store, so an empty
  value is modelled by that string.
\<close>

definition Write :: "selfWriter \<Rightarrow> string \<Rightarrow> nat \<times> selfWriter \<times> event list" where
  "Write s p =
     (let n = length p;
          s1 = s\<lparr>accPacketSize := accPacketSize s + int n\<rparr>;
          s2 = s1\<lparr>loaded := loaded s1 + int n\<rparr>
      in (n, s2,
          SinkWrite n # (if onProgress s2 then [OnProgress (loaded s2) (total s2) (rate s2)] else [])))"

subsection \<open>Options and construction\<close>

record Options =
  FileName :: string
  BaseDir :: string
  Concurrency :: int
  Resume :: bool

datatype OptionFunc =
    WithFileName string
  | WithBaseDir string
  | WithConcurrency int
  | WithResume bool

fun apply_option :: "OptionFunc \<Rightarrow> Options \<Rightarrow> Options" where
  "apply_option (WithFileName filename) opt = opt\<lparr>FileName := filename\<rparr>"
| "apply_option (WithBaseDir basedir) opt = opt\<lparr>BaseDir := basedir\<rparr>"
| "apply_option (WithConcurrency c) opt = opt\<lparr>Concurrency := c\<rparr>"
| "apply_option (WithResume r) opt = opt\<lparr>Resume := r\<rparr>"

datatype chan = Open | Closed

record Downloader =
  url :: string
  concurrency :: int
  resume :: bool
  partDir :: string
  sw :: selfWriter
  options :: Options
  stopSignal :: chan
  mCancelFunc :: "(string \<times> ctx) list"
  onDownloadStart :: bool
  onDownloadFinished :: bool
  onDownloadCanceled :: bool

definition DefaultBaseDir :: string where
  "DefaultBaseDir = ''downloader_cache''"

text \<open>\<open>numCPU\<close> is the value of runtime.NumCPU().\<close>

definition NewDownloader :: "int \<Rightarrow> string \<Rightarrow> OptionFunc list \<Rightarrow> Downloader" where
  "NewDownloader numCPU u opts =
     (let options0 = \<lparr>FileName = filepath_Base u, BaseDir = DefaultBaseDir,
                       Concurrency = numCPU, Resume = True\<rparr>;
          options1 = fold apply_option opts options0;
          options2 = (if Concurrency options1 = 0 then options1\<lparr>Concurrency := numCPU\<rparr>
                      else options1)
      in \<lparr>url = u, concurrency = Concurrency options2, resume = Resume options2,
          partDir = [],
          sw = \<lparr>loaded = 0, total = 0, accPacketSize = 0, rate = ''0.00 MB/s'',
                onProgress = False\<rparr>,
          options = options2, stopSignal = Open, mCancelFunc = [],
          onDownloadStart = False, onDownloadFinished = False,
          onDownloadCanceled = False\<rparr>)"

definition OnProgress_set :: "Downloader \<Rightarrow> bool \<Rightarrow> Downloader" where
  "OnProgress_set d f = d\<lparr>sw := (sw d)\<lparr>onProgress := f\<rparr>\<rparr>"

subsection \<open>Stop and init\<close>

definition Stop :: "Downloader \<Rightarrow> result \<times> Downloader \<times> event list" where
  "Stop d =
     (case stopSignal d of
        Closed \<Rightarrow> (Some ErrAlreadyStopped, d, [])
      | Open \<Rightarrow>
          (None, d\<lparr>stopSignal := Closed, mCancelFunc := []\<rparr>,
           map (\<lambda>(key, c). CancelCalled c) (mCancelFunc d)))"

definition init :: "Downloader \<Rightarrow> Downloader" where
  "init d =
     d\<lparr>sw := (sw d)\<lparr>loaded := 0, accPacketSize := 0, rate := ''0.00 MB/s''\<rparr>,
       stopSignal := Open, mCancelFunc := []\<rparr>"

text \<open>A call of \<open>Stop\<close> from another goroutine, placed by the world.\<close>

definition arrive :: "world \<Rightarrow> nat \<Rightarrow> Downloader \<Rightarrow> Downloader \<times> event list" where
  "arrive w k d =
     (if stop_at w = Some k then (case Stop d of (r, d', evs) \<Rightarrow> (d', evs)) else (d, []))"

subsection \<open>Part files\<close>

definition getPartDir :: "Downloader \<Rightarrow> string \<Rightarrow> string" where
  "getPartDir d filename = filepath_Join (BaseDir (options d)) filename"

definition getPartFilename :: "Downloader \<Rightarrow> string \<Rightarrow> nat \<Rightarrow> string" where
  "getPartFilename d filename partNum =
     filepath_Join (partDir d) (filename @ ''_'' @ itoa (int partNum))"

subsection \<open>Copying a response body\<close>

text \<open>
  io.CopyBuffer into io.MultiWriter(file, sw): every chunk read is written to the file
  and then to the selfWriter. The first component of the result says whether the copy
  returned an error.
\<close>

fun copyChunks :: "string \<Rightarrow> selfWriter \<Rightarrow> string list \<Rightarrow> selfWriter \<times> event list" where
  "copyChunks f s [] = (s, [])"
| "copyChunks f s (c # cs) =
     (case Write s c of (n, s1, e1) \<Rightarrow>
        (case copyChunks f s1 cs of (s2, e2) \<Rightarrow> (s2, FileWrite f (length c) # e1 @ e2)))"

definition CopyBuffer ::
  "string \<Rightarrow> selfWriter \<Rightarrow> string list \<Rightarrow> body_end \<Rightarrow> bool \<times> selfWriter \<times> event list" where
  "CopyBuffer f s cs e =
     (case copyChunks f s cs of (s', evs) \<Rightarrow>
        (case e of
           EOF \<Rightarrow> (False, s', evs)
         | ReadErr \<Rightarrow> (True, s', evs)
         | WriteErr c \<Rightarrow> (True, s', evs @ [FileWrite f (length c)])))"

subsection \<open>downloadPartial\<close>

definition partFlags :: "Downloader \<Rightarrow> flag list" where
  "partFlags d = (if resume d then [O_CREATE, O_WRONLY, O_APPEND] else [O_CREATE, O_WRONLY])"

text \<open>
  The part of downloadPartial after the registration of the cancel function; the
  deferred calls that were registered by the time of the return are at the end of the
  events of each branch.
\<close>

definition fetchPart ::
  "world \<Rightarrow> Downloader \<Rightarrow> int \<Rightarrow> int \<Rightarrow> nat \<Rightarrow> string \<Rightarrow> result \<times> Downloader \<times> event list" where
  "fetchPart w d rangeStart rangeEnd i partFilename =
     (if request_err w then (Some ErrCreateRequest, d, [])
      else
        let req = HttpGet (url d) (Some (rangeStart, rangeEnd - 1)) in
        (case get_part w i of
           GetErr \<Rightarrow> (Some (ErrDownloadPart i), d, [req])
         | GetOk status len chunks e \<Rightarrow>
             if status \<noteq> 200 \<and> status \<noteq> 206
             then (Some (ErrStatusPart status i), d, [req, BodyClose])
             else
               let opn = OsOpenFile partFilename (partFlags d) in
               if fails w (OpenPartFile i)
               then (Some ErrOpenPartFile, d, [req, opn, BodyClose])
               else
                 (case CopyBuffer partFilename (sw d) chunks e of (err, s', evs) \<Rightarrow>
                    (if err then Some (ErrWritePart i) else None, d\<lparr>sw := s'\<rparr>,
                     [req, opn] @ evs @ [FileClose partFilename, BodyClose]))))"

definition downloadPartial ::
  "world \<Rightarrow> Downloader \<Rightarrow> int \<Rightarrow> int \<Rightarrow> nat \<Rightarrow> result \<times> Downloader \<times> event list" where
  "downloadPartial w d rangeStart rangeEnd i =
     (if rangeStart \<ge> rangeEnd then (None, d, [])
      else
        let filename = FileName (options d);
            partFilename = getPartFilename d filename i;
            d1 = d\<lparr>mCancelFunc := AList.update partFilename (PartCtx i) (mCancelFunc d)\<rparr>
        in (case fetchPart w d1 rangeStart rangeEnd i partFilename of (r, d2, evs) \<Rightarrow>
              (r, d2\<lparr>mCancelFunc := AList.delete partFilename (mCancelFunc d2)\<rparr>,
               MapStore partFilename (PartCtx i) # evs @ [MapDelete partFilename])))"

subsection \<open>The workers of multiDownload\<close>

text \<open>The body of the goroutine that multiDownload starts for part \<open>i\<close>.\<close>

definition readResume :: "world \<Rightarrow> Downloader \<Rightarrow> nat \<Rightarrow> int \<times> Downloader \<times> event list" where
  "readResume w d i =
     (if resume d then
        (let partFileName = getPartFilename d (FileName (options d)) i in
         case read_part w i of
           Some content \<Rightarrow>
             (case Write (sw d) content of (n, s', evs) \<Rightarrow>
                (int (length content), d\<lparr>sw := s'\<rparr>, OsReadFile partFileName # evs))
         | None \<Rightarrow> (0, d, [OsReadFile partFileName]))
      else (0, d, []))"

definition worker ::
  "world \<Rightarrow> Downloader \<Rightarrow> int \<Rightarrow> int \<Rightarrow> nat \<Rightarrow> int \<Rightarrow> Downloader \<times> event list" where
  "worker w d contentLen partSize i rangeStart =
     (let rangeEnd = (if int i = concurrency d - 1 then contentLen else rangeStart + partSize)
      in case readResume w d i of (downloaded, d1, e1) \<Rightarrow>
           (case downloadPartial w d1 (rangeStart + downloaded) rangeEnd i of
              (r, d2, e2) \<Rightarrow> (d2, e1 @ e2)))"

text \<open>
  The spawn loop of multiDownload, from index \<open>i\<close> with cursor \<open>rangeStart\<close>. Its bound
  \<open>n\<close> is \<open>d.concurrency\<close>, which nothing changes while the loop runs. The result is:
  whether the loop returned because the stop signal was raised, the state, the events of
  the calling goroutine, and the events of each worker started.
\<close>

function spawn ::
  "world \<Rightarrow> int \<Rightarrow> Downloader \<Rightarrow> int \<Rightarrow> int \<Rightarrow> nat \<Rightarrow> int \<Rightarrow>
     bool \<times> Downloader \<times> event list \<times> event list list" where
  "spawn w n d contentLen partSize i rangeStart =
     (if int i < n then
        (case arrive w i d of (d0, e0) \<Rightarrow>
           if stopSignal d0 = Closed then (True, d0, e0, [])
           else
             (case worker w d0 contentLen partSize i rangeStart of (d1, tr) \<Rightarrow>
                (case spawn w n d1 contentLen partSize (Suc i) (rangeStart + partSize) of
                   (stopped, d2, e2, trs) \<Rightarrow> (stopped, d2, e0 @ e2, tr # trs))))
      else (False, d, [], []))"
  by pat_completeness auto
termination
  by (relation "measure (\<lambda>(w, n, d, contentLen, partSize, i, rangeStart). nat (n - int i))") auto

declare spawn.simps [simp del]

subsection \<open>merge\<close>

text \<open>The body of the loop of merge, for part \<open>i\<close>.\<close>

definition mergePart :: "world \<Rightarrow> Downloader \<Rightarrow> string \<Rightarrow> nat \<Rightarrow> result \<times> event list" where
  "mergePart w d filename i =
     (let partFileName = getPartFilename d filename i;
          opn = OsOpen partFileName;
          cpy = IoCopy filename partFileName;
          cls = FileClose partFileName;
          rmv = OsRemove partFileName
      in if fails w (MergeOpenPart i) then (Some (ErrOpenPart i), [opn])
         else if fails w (MergeCopy i) then (Some (ErrCopyPart i), [opn, cpy, cls])
         else if fails w (MergeClosePart i) then (Some (ErrClosePart i), [opn, cpy, cls])
         else if fails w (MergeRemove i) then (Some (ErrRemovePart i), [opn, cpy, cls, rmv])
         else (None, [opn, cpy, cls, rmv]))"

function mergeLoop :: "world \<Rightarrow> Downloader \<Rightarrow> string \<Rightarrow> nat \<Rightarrow> result \<times> event list" where
  "mergeLoop w d filename i =
     (if int i < concurrency d then
        (case mergePart w d filename i of
           (r, evs) \<Rightarrow>
             (case r of
                Some e \<Rightarrow> (Some e, evs)
              | None \<Rightarrow>
                  (case mergeLoop w d filename (Suc i) of (r', evs') \<Rightarrow> (r', evs @ evs'))))
      else (None, []))"
  by pat_completeness auto
termination
  by (relation "measure (\<lambda>(w, d, filename, i). nat (concurrency d - int i))") auto

declare mergeLoop.simps [simp del]

text \<open>
  merge. The destination is closed by a deferred call, whose result the source discards;
  after a failed copy the part file is closed before the return, the result discarded
  as well.
\<close>

definition merge :: "world \<Rightarrow> Downloader \<Rightarrow> result \<times> event list" where
  "merge w d =
     (let filename = FileName (options d);
          opn = OsOpenFile filename [O_CREATE, O_WRONLY, O_TRUNC]
      in if fails w MergeOpenDest then (Some ErrCreateDestination, [opn])
         else (case mergeLoop w d filename 0 of
                 (r, evs) \<Rightarrow> (r, opn # evs @ [FileClose filename])))"

subsection \<open>multiDownload\<close>

text \<open>
  The stop signal is looked at once before each spawn (observations \<open>0\<close>, \<open>1\<close>, ...)
  and once after the join (the next observation). \<open>afterJoin\<close> is the part of
  multiDownload after \<open>wg.Wait()\<close>. An integer division by zero is a panic of the Go
  runtime; the model returns it as the value \<open>PanicDivideByZero\<close>.
\<close>

definition afterJoin ::
  "world \<Rightarrow> Downloader \<Rightarrow> string \<Rightarrow> string \<Rightarrow> result \<times> Downloader \<times> event list" where
  "afterJoin w d filename dir =
     (case arrive w (nat (concurrency d)) d of (d1, e1) \<Rightarrow>
        if stopSignal d1 = Closed
        then (None, d1, e1 @ (if onDownloadCanceled d1 then [OnCanceled filename] else []))
        else
          (case merge w d1 of (merr, em) \<Rightarrow>
             (case merr of
                Some e \<Rightarrow> (Some (ErrMergeParts e), d1, e1 @ em)
              | None \<Rightarrow>
                  (None, d1,
                   e1 @ em @ [OsRemoveAll dir] @
                   (if onDownloadFinished d1 then [OnFinished filename] else [])))))"

definition multiDownload ::
  "world \<Rightarrow> Downloader \<Rightarrow> int \<Rightarrow> result \<times> Downloader \<times> event list \<times> event list list" where
  "multiDownload w d contentLen =
     (if contentLen \<le> 0 then (Some (ErrInvalidContentLength contentLen), d, [], [])
      else
        let filename = FileName (options d);
            d1 = d\<lparr>sw := (sw d)\<lparr>total := contentLen\<rparr>\<rparr>;
            e1 = (if onDownloadStart d1 then [OnStart contentLen filename] else [])
        in if concurrency d1 = 0 then (Some PanicDivideByZero, d1, e1, [])
           else
             let partSize = go_div contentLen (concurrency d1);
                 dir = getPartDir d1 filename;
                 e2 = e1 @ [OsMkdirAll dir]
             in if fails w MkdirAllPartDir then (Some ErrCreateCacheDir, d1, e2, [])
                else
                  (case spawn w (concurrency d1) (d1\<lparr>partDir := dir\<rparr>) contentLen partSize 0 0 of
                     (stopped, d3, e3, trs) \<Rightarrow>
                       if stopped then (None, d3, e2 @ e3, trs)
                       else
                         (case afterJoin w d3 filename dir of
                            (r, d4, e4) \<Rightarrow> (r, d4, e2 @ e3 @ [WgWait] @ e4, trs))))"

subsection \<open>singleDownload\<close>

text \<open>The part of singleDownload after the registration of the cancel function.\<close>

definition fetchSingle ::
  "world \<Rightarrow> Downloader \<Rightarrow> string \<Rightarrow> result \<times> Downloader \<times> event list" where
  "fetchSingle w d filename =
     (if request_err w then (Some ErrCreateRequest, d, [])
      else
        let req = HttpGet (url d) None in
        (case get_single w of
           GetErr \<Rightarrow> (Some ErrDownloadFile, d, [req])
         | GetOk status contentLen chunks e \<Rightarrow>
             if status \<noteq> 200 then (Some (ErrStatus status), d, [req, BodyClose])
             else
               let d1 = d\<lparr>sw := (sw d)\<lparr>total := contentLen\<rparr>\<rparr>;
                   e1 = req # (if onDownloadStart d1 then [OnStart contentLen filename] else []);
                   opn = OsOpenFile filename [O_CREATE, O_WRONLY, O_TRUNC]
               in if fails w SingleOpenDest
                  then (Some ErrCreateFile, d1, e1 @ [opn, BodyClose])
                  else
                    (case CopyBuffer filename (sw d1) chunks e of (err, s', evs) \<Rightarrow>
                       if err
                       then (Some ErrWriteFile, d1\<lparr>sw := s'\<rparr>,
                             e1 @ [opn] @ evs @ [FileClose filename, BodyClose])
                       else
                         (case arrive w 0 (d1\<lparr>sw := s'\<rparr>) of (d2, e2) \<Rightarrow>
                            (None, d2,
                             e1 @ [opn] @ evs @ e2 @
                             (if stopSignal d2 = Closed
                              then (if onDownloadCanceled d2 then [OnCanceled filename] else [])
                              else (if onDownloadFinished d2 then [OnFinished filename] else [])) @
                             [FileClose filename, BodyClose])))))"

definition singleDownload :: "world \<Rightarrow> Downloader \<Rightarrow> result \<times> Downloader \<times> event list" where
  "singleDownload w d =
     (let filename = FileName (options d);
          d1 = d\<lparr>mCancelFunc := AList.update filename SingleCtx (mCancelFunc d)\<rparr>
      in case fetchSingle w d1 filename of (r, d2, evs) \<Rightarrow>
           (r, d2\<lparr>mCancelFunc := AList.delete filename (mCancelFunc d2)\<rparr>,
            MapStore filename SingleCtx # evs @ [MapDelete filename]))"

subsection \<open>download and Start\<close>

text \<open>
  download starts the rate task (calcRate, modelled in the next subsection) and stops it
  on return. In the run modelled here no tick of the rate task falls into the download,
  so that the stored rate stays the initial one.
\<close>

definition download ::
  "world \<Rightarrow> Downloader \<Rightarrow> result \<times> Downloader \<times> event list \<times> event list list" where
  "download w d =
     (if url d = [] then (Some ErrInvalidURL, d, [], [])
      else
        (case head w of
           HeadErr \<Rightarrow> (Some ErrGetFileInfo, d, [HttpHead (url d)], [])
         | HeadOk status acceptRanges contentLength \<Rightarrow>
             let d1 = d\<lparr>sw := (sw d)\<lparr>rate := ''0.00 MB/s''\<rparr>\<rparr>;
                 pre = [HttpHead (url d), GoCalcRate];
                 post = [CancelRate, BodyClose]
             in if status = 200 \<and> acceptRanges = ''bytes''
                then (case multiDownload w d1 contentLength of
                        (r, d2, evs, trs) \<Rightarrow> (r, d2, pre @ evs @ post, trs))
                else (case singleDownload w d1 of
                        (r, d2, evs) \<Rightarrow> (r, d2, pre @ evs @ post, []))))"

definition Start ::
  "world \<Rightarrow> Downloader \<Rightarrow> result \<times> Downloader \<times> event list \<times> event list list" where
  "Start w d = download w (case stopSignal d of Closed \<Rightarrow> init d | Open \<Rightarrow> d)"

subsection \<open>calcRate\<close>

text \<open>
  The float64 values of calcRate. \<open>float64 x\<close> is the conversion of an int64: \<open>x\<close>
  rounded to a significand of 53 bits, ties to even; its value is an integer again.
  The product with \<open>4.0\<close> and the quotients by \<open>KB\<close>, \<open>MB\<close> and \<open>GB\<close> (powers of two)
  are exact in binary floating point, so a float64 of formatRate is kept as the integer
  \<open>bytesPerSecond\<close>, and a quotient as numerator and denominator.
\<close>

fun dropBits :: "nat \<Rightarrow> nat" where
  "dropBits m = (if m < 2 ^ 53 then 0 else Suc (dropBits (m div 2)))"

declare dropBits.simps [simp del]

definition roundHalfEven :: "nat \<Rightarrow> nat \<Rightarrow> nat" where
  "roundHalfEven m d =
     (let q = m div d; r = m mod d
      in if d < 2 * r \<or> (2 * r = d \<and> odd q) then q + 1 else q)"

definition float64 :: "int \<Rightarrow> int" where
  "float64 x =
     (let m = nat \<bar>x\<bar>; e = dropBits m
      in sgn x * int (roundHalfEven m (2 ^ e) * 2 ^ e))"

text \<open>
  \<open>%.2f\<close> of fmt.Sprintf on the float64 \<open>x / y\<close> (\<open>y\<close> positive): the decimal expansion
  of the exact value, rounded to two places, ties to even.
\<close>

definition sprintf_2f :: "int \<Rightarrow> int \<Rightarrow> string" where
  "sprintf_2f x y =
     (let h = roundHalfEven (100 * nat \<bar>x\<bar>) (nat y)
      in (if x < 0 then ''-'' else []) @ utoa (h div 100) @ ''.'' @ [digit (h div 10), digit h])"

definition KB :: int where "KB = 1024"
definition MB :: int where "MB = KB * 1024"
definition GB :: int where "GB = MB * 1024"

definition formatRate :: "int \<Rightarrow> string" where
  "formatRate bytesPerSecond =
     (if bytesPerSecond \<ge> GB then sprintf_2f bytesPerSecond GB @ '' GB/s''
      else if bytesPerSecond \<ge> MB then sprintf_2f bytesPerSecond MB @ '' MB/s''
      else if bytesPerSecond \<ge> KB then sprintf_2f bytesPerSecond KB @ '' KB/s''
      else sprintf_2f bytesPerSecond 1 @ '' B/s'')"

text \<open>One tick of the ticker (every 250 ms): the case \<open><-ticker.C\<close> of the loop.\<close>

definition tick :: "selfWriter \<Rightarrow> selfWriter" where
  "tick s =
     (let accSize = accPacketSize s;
          s1 = s\<lparr>accPacketSize := 0\<rparr>;
          bytesPerSecond = float64 accSize * 4
      in s1\<lparr>rate := formatRate bytesPerSecond\<rparr>)"

text \<open>
  calcRate runs beside the writers. A schedule lists, in the order in which they take
  effect, the ticks and the calls of \<open>Write\<close> by other goroutines, up to the cancellation
  of the context. The second component of the result lists the strings stored in
  \<open>rate\<close>, the initial one first.
\<close>

datatype sched = Tick | Written string

fun rateLoop :: "selfWriter \<Rightarrow> sched list \<Rightarrow> selfWriter \<times> string list" where
  "rateLoop s [] = (s, [])"
| "rateLoop s (Tick # es) =
     (let s1 = tick s in case rateLoop s1 es of (s2, rs) \<Rightarrow> (s2, rate s1 # rs))"
| "rateLoop s (Written p # es) = (case Write s p of (n, s1, evs) \<Rightarrow> rateLoop s1 es)"

definition calcRate :: "selfWriter \<Rightarrow> sched list \<Rightarrow> selfWriter \<times> string list" where
  "calcRate s es =
     (let s0 = s\<lparr>rate := ''0.00 MB/s''\<rparr>
      in case rateLoop s0 es of (s1, rs) \<Rightarrow> (s1, rate s0 # rs))"

text \<open>
  A matcher for the regular expression \<open>-?\d+\.\d{2} (B|KB|MB|GB)/s\<close>, on the whole
  string.
\<close>

definition is_digit :: "char \<Rightarrow> bool" where
  "is_digit c = (c \<in> set ''0123456789'')"

definition rate_regex :: "string \<Rightarrow> bool" where
  "rate_regex s =
     (let t = (case s of [] \<Rightarrow> [] | c # r \<Rightarrow> if c = CHR ''-'' then r else s);
          ds = takeWhile is_digit t;
          rest = dropWhile is_digit t
      in ds \<noteq> [] \<and>
         (case rest of
            p # a # b # sp # u \<Rightarrow>
              p = CHR ''.'' \<and> is_digit a \<and> is_digit b \<and> sp = CHR '' '' \<and>
              (u = ''B/s'' \<or> u = ''KB/s'' \<or> u = ''MB/s'' \<or> u = ''GB/s'')
          | _ \<Rightarrow> False))"

subsection \<open>Example inputs\<close>

text \<open>
  A server that holds the ten bytes \<open>0123456789\<close>, supports ranges and answers a
  downloader of concurrency 3; nothing fails and nobody calls \<open>Stop\<close>.
\<close>

definition example_world :: world where
  "example_world =
     \<lparr>head = HeadOk 200 ''bytes'' 10,
      request_err = False,
      get_part = (\<lambda>i. if i = 0 then GetOk 206 3 [''012''] EOF
                       else if i = 1 then GetOk 206 3 [''345''] EOF
                       else GetOk 206 4 [''67'', ''89''] EOF),
      get_single = GetOk 200 10 [''01234'', ''56789''] EOF,
      read_part = (\<lambda>i. None),
      fails = (\<lambda>op. False),
      stop_at = None\<rparr>"

definition example_downloader :: Downloader where
  "example_downloader = NewDownloader 8 ''http://host/file.bin'' [WithConcurrency 3]"

subsection \<open>Notions used in the statements\<close>

text \<open>
  For merge: part \<open>i\<close> is merged without a failure; the four calls that merge makes for
  part \<open>i\<close>; and, when one of them fails, the error that belongs to the first failing
  call and the number of calls made for that part (after a failed copy the part file is
  still closed).
\<close>

definition part_ok :: "world \<Rightarrow> nat \<Rightarrow> bool" where
  "part_ok w i =
     (\<not> fails w (MergeOpenPart i) \<and> \<not> fails w (MergeCopy i) \<and>
      \<not> fails w (MergeClosePart i) \<and> \<not> fails w (MergeRemove i))"

definition partOps :: "Downloader \<Rightarrow> string \<Rightarrow> nat \<Rightarrow> event list" where
  "partOps d filename i =
     (let p = getPartFilename d filename i
      in [OsOpen p, IoCopy filename p, FileClose p, OsRemove p])"

definition partError :: "world \<Rightarrow> nat \<Rightarrow> error" where
  "partError w i =
     (if fails w (MergeOpenPart i) then ErrOpenPart i
      else if fails w (MergeCopy i) then ErrCopyPart i
      else if fails w (MergeClosePart i) then ErrClosePart i
      else ErrRemovePart i)"

definition partSteps :: "world \<Rightarrow> nat \<Rightarrow> nat" where
  "partSteps w i =
     (if fails w (MergeOpenPart i) then 1
      else if fails w (MergeCopy i) \<or> fails w (MergeClosePart i) then 3
      else 4)"

text \<open>
  For the progress counter: every on\_progress callback among the events reports a
  \<open>loaded\<close> value of at least \<open>b\<close>.
\<close>

definition progress_from :: "int \<Rightarrow> event list \<Rightarrow> bool" where
  "progress_from b evs =
     list_all (\<lambda>e. case e of OnProgress l t r \<Rightarrow> b \<le> l | _ \<Rightarrow> True) evs"

text \<open>
  For the ranges: the Range headers of the GET requests among the events, as pairs
  \<open>(a, b)\<close> for \<open>bytes=a-b\<close>, and the set of byte offsets these requests ask for (both
  ends of a Range header are inclusive).
\<close>

definition requested :: "event list \<Rightarrow> (int \<times> int) list" where
  "requested evs = concat (map (\<lambda>e. case e of HttpGet u (Some r) \<Rightarrow> [r] | _ \<Rightarrow> []) evs)"

definition span :: "event list \<Rightarrow> int set" where
  "span evs = (\<Union>(a, b) \<in> set (requested evs). {a..b})"

text \<open>
  For the end of a run: the calls of on\_finished and on\_canceled; the calls that remove
  a part file or the part directory; the calls of cancel functions; and the kinds of
  events that a worker can cause.
\<close>

definition is_final :: "event \<Rightarrow> bool" where
  "is_final e = (case e of OnFinished f \<Rightarrow> True | OnCanceled f \<Rightarrow> True | _ \<Rightarrow> False)"

definition is_removal :: "event \<Rightarrow> bool" where
  "is_removal e = (case e of OsRemove p \<Rightarrow> True | OsRemoveAll p \<Rightarrow> True | _ \<Rightarrow> False)"

definition is_cancel :: "event \<Rightarrow> bool" where
  "is_cancel e = (case e of CancelCalled c \<Rightarrow> True | _ \<Rightarrow> False)"

definition worker_event :: "event \<Rightarrow> bool" where
  "worker_event e =
     (case e of
        OsReadFile p \<Rightarrow> True | SinkWrite n \<Rightarrow> True | OnProgress l t r \<Rightarrow> True
      | MapStore k c \<Rightarrow> True | MapDelete k \<Rightarrow> True | HttpGet u r \<Rightarrow> True
      | BodyClose \<Rightarrow> True | OsOpenFile p fl \<Rightarrow> True | FileWrite p n \<Rightarrow> True
      | FileClose p \<Rightarrow> True | _ \<Rightarrow> False)"

text \<open>
  More example inputs: a server without range support, one that answers 404, a file
  system where the copy of part 1 fails, and a downloader whose part directory is set.
\<close>

definition single_world :: world where
  "single_world = example_world\<lparr>head := HeadOk 200 [] 10\<rparr>"

definition bad_status_world :: world where
  "bad_status_world =
     example_world\<lparr>head := HeadOk 200 [] 10, get_single := GetOk 404 9 [''Not found''] EOF\<rparr>"

definition copy_fails_world :: world where
  "copy_fails_world = example_world\<lparr>fails := (\<lambda>op. op = MergeCopy 1)\<rparr>"

definition merging_downloader :: Downloader where
  "merging_downloader = example_downloader\<lparr>partDir := ''c''\<rparr>"

definition reporting_downloader :: Downloader where
  "reporting_downloader = OnProgress_set example_downloader True"

text \<open>
  A resumed download: the file of part 0 holds all three bytes of its range, the file
  of part 1 holds two of three, part 2 has no file; the server answers the requests for
  what is missing.
\<close>

definition resume_world :: world where
  "resume_world =
     example_world
       \<lparr>read_part := (\<lambda>i. if i = 0 then Some ''012'' else if i = 1 then Some ''34'' else None),
        get_part := (\<lambda>i. if i = 1 then GetOk 206 1 [''5''] EOF
                         else if i = 2 then GetOk 206 4 [''67'', ''89''] EOF else GetErr)\<rparr>"

definition resuming_downloader :: Downloader where
  "resuming_downloader = reporting_downloader\<lparr>partDir := ''c''\<rparr>"

text \<open>
  A stopped download: \<open>Stop\<close> is called after the third worker was started and before
  the join returns, and every request ends by a read error after one byte.
\<close>

definition stopping_world :: world where
  "stopping_world =
     example_world\<lparr>stop_at := Some 3, get_part := (\<lambda>i. GetOk 206 3 [''x''] ReadErr)\<rparr>"

definition observed_downloader :: Downloader where
  "observed_downloader =
     example_downloader\<lparr>onDownloadFinished := True, onDownloadCanceled := True\<rparr>"

definition example_traces :: "event list list" where
  "example_traces = snd (snd (snd (multiDownload example_world example_downloader 10)))"

section \<open>Properties\<close>

subsection \<open>Frame lemmas\<close>

lemma url_init: "url (init d) = url d"
  by (simp add: init_def)

lemma options_init: "options (init d) = options d"
  by (simp add: init_def)

subsection \<open>Stop\<close>

text \<open>
  Claim C4. \<open>Stop\<close> called while the stop signal is raised returns ErrAlreadyStopped and
  changes nothing. \<open>Stop\<close> called while the signal is not raised raises it, calls the
  cancel function of every entry of the cancel registry (once each), empties the
  registry, changes no other field and returns \<open>nil\<close>. Hence, from every state, a second
  \<open>Stop\<close> right after a first one fails with ErrAlreadyStopped.
\<close>

theorem Stop_contract:
  "(stopSignal d = Closed \<longrightarrow> Stop d = (Some ErrAlreadyStopped, d, [])) \<and>
   (stopSignal d = Open \<longrightarrow>
      (case Stop d of (r, d', evs) \<Rightarrow>
         r = None \<and> stopSignal d' = Closed \<and> mCancelFunc d' = [] \<and>
         d' = d\<lparr>stopSignal := Closed, mCancelFunc := []\<rparr> \<and>
         evs = map (\<lambda>kv. CancelCalled (snd kv)) (mCancelFunc d))) \<and>
   (case Stop d of (r, d', evs) \<Rightarrow> Stop d' = (Some ErrAlreadyStopped, d', []))"
proof (cases "stopSignal d")
  case Closed
  then have "Stop d = (Some ErrAlreadyStopped, d, [])"
    by (simp add: Stop_def)
  with Closed show ?thesis by simp
next
  case Open
  let ?d' = "d\<lparr>stopSignal := Closed, mCancelFunc := []\<rparr>"
  have first: "Stop d = (None, ?d', map (\<lambda>kv. CancelCalled (snd kv)) (mCancelFunc d))"
    using Open by (simp add: Stop_def case_prod_beta)
  have second: "Stop ?d' = (Some ErrAlreadyStopped, ?d', [])"
    by (simp add: Stop_def)
  from Open first second show ?thesis by simp
qed

theorem Stop_contract_witness:
  "Stop (example_downloader\<lparr>mCancelFunc := [(''p0'', PartCtx 0), (''p1'', PartCtx 1)]\<rparr>) =
     (None,
      example_downloader\<lparr>stopSignal := Closed, mCancelFunc := []\<rparr>,
      [CancelCalled (PartCtx 0), CancelCalled (PartCtx 1)]) \<and>
   Stop (example_downloader\<lparr>stopSignal := Closed, mCancelFunc := []\<rparr>) =
     (Some ErrAlreadyStopped,
      example_downloader\<lparr>stopSignal := Closed, mCancelFunc := []\<rparr>, [])"
  using Stop_contract
    [of "example_downloader\<lparr>mCancelFunc := [(''p0'', PartCtx 0), (''p1'', PartCtx 1)]\<rparr>"]
  by (simp add: example_downloader_def NewDownloader_def Stop_def)

subsection \<open>The empty URL\<close>

text \<open>
  Claim C6. When the url of the downloader is the empty string, \<open>Start\<close> returns
  ErrInvalidURL and causes no event at all: no HTTP request, no file-system call and no
  observer callback (on\_start, on\_progress, on\_finished, on\_canceled), in the calling
  goroutine or in a worker.
\<close>

theorem Start_empty_url:
  assumes "url d = []"
  shows "Start w d =
           (Some ErrInvalidURL, (case stopSignal d of Closed \<Rightarrow> init d | Open \<Rightarrow> d), [], [])"
  using assms by (cases "stopSignal d") (simp_all add: Start_def download_def url_init)

theorem Start_empty_url_witness:
  "url (NewDownloader 8 [] [WithFileName ''test.txt'']) = [] \<and>
   fst (Start example_world (NewDownloader 8 [] [WithFileName ''test.txt''])) =
     Some ErrInvalidURL \<and>
   snd (snd (Start example_world (NewDownloader 8 [] [WithFileName ''test.txt'']))) = ([], [])"
proof -
  have u: "url (NewDownloader 8 [] [WithFileName ''test.txt'']) = []"
    by (simp add: NewDownloader_def)
  show ?thesis
    using Start_empty_url [OF u, of example_world] u by simp
qed

subsection \<open>Single-mode requires 200\<close>

text \<open>
  Claim C7. In single-mode (the HEAD request succeeded but did not answer 200 with
  \<open>Accept-Ranges: bytes\<close>) a GET response whose status is not 200 makes the run fail with
  an error. The events of the run are then the HEAD request, the start of the rate task,
  the registration of the cancel function, the GET, and the deferred calls: the
  destination file is not opened and no observer callback fires.
\<close>

theorem single_requires_200:
  assumes "url d \<noteq> []"
      and "head w = HeadOk hstatus acceptRanges len"
      and "\<not> (hstatus = 200 \<and> acceptRanges = ''bytes'')"
      and "\<not> request_err w"
      and "get_single w = GetOk status len' chunks e"
      and "status \<noteq> 200"
  shows "fst (Start w d) = Some (ErrStatus status) \<and>
         snd (snd (Start w d)) =
           ([HttpHead (url d), GoCalcRate,
             MapStore (FileName (options d)) SingleCtx, HttpGet (url d) None, BodyClose,
             MapDelete (FileName (options d)), CancelRate, BodyClose], [])"
  using assms
  by (cases "stopSignal d")
     (auto simp add: Start_def download_def singleDownload_def fetchSingle_def url_init
        options_init Let_def)

theorem single_requires_200_witness:
  "fst (Start bad_status_world (example_downloader\<lparr>onDownloadStart := True\<rparr>)) =
     Some (ErrStatus 404) \<and>
   snd (snd (Start bad_status_world (example_downloader\<lparr>onDownloadStart := True\<rparr>))) =
     ([HttpHead ''http://host/file.bin'', GoCalcRate,
       MapStore ''file.bin'' SingleCtx, HttpGet ''http://host/file.bin'' None, BodyClose,
       MapDelete ''file.bin'', CancelRate, BodyClose], [])"
  using single_requires_200
    [of "example_downloader\<lparr>onDownloadStart := True\<rparr>" bad_status_world 200 "[]" 10 404 9
        "[''Not found'']" EOF]
  by (simp add: bad_status_world_def example_world_def example_downloader_def NewDownloader_def
        filepath_Base_def)

subsection \<open>merge\<close>

lemma mergePart_ok: "part_ok w i \<Longrightarrow> mergePart w d fn i = (None, partOps d fn i)"
  by (simp add: part_ok_def mergePart_def partOps_def Let_def)

lemma mergePart_fail:
  "\<not> part_ok w i \<Longrightarrow>
     mergePart w d fn i = (Some (partError w i), take (partSteps w i) (partOps d fn i))"
  by (auto simp add: part_ok_def mergePart_def partOps_def partError_def partSteps_def Let_def)

lemma mergeLoop_ok:
  "(\<And>j. i \<le> j \<Longrightarrow> int j < concurrency d \<Longrightarrow> part_ok w j) \<Longrightarrow>
     mergeLoop w d fn i = (None, concat (map (partOps d fn) [i..<nat (concurrency d)]))"
proof (induction w d fn i rule: mergeLoop.induct)
  case (1 w d fn i)
  show ?case
  proof (cases "int i < concurrency d")
    case True
    then have ok: "part_ok w i" using "1.prems" by simp
    have rest: "mergeLoop w d fn (Suc i) =
                  (None, concat (map (partOps d fn) [Suc i..<nat (concurrency d)]))"
      using "1.IH" [OF True _ refl] True "1.prems" by (simp add: mergePart_ok ok)
    have "i < nat (concurrency d)" using True by linarith
    then have "[i..<nat (concurrency d)] = i # [Suc i..<nat (concurrency d)]"
      by (rule upt_conv_Cons)
    then show ?thesis
      using True by (subst mergeLoop.simps) (simp add: mergePart_ok ok rest)
  next
    case False
    then show ?thesis by (subst mergeLoop.simps) simp
  qed
qed

lemma mergeLoop_fail:
  "i \<le> k \<Longrightarrow> int k < concurrency d \<Longrightarrow> (\<And>j. i \<le> j \<Longrightarrow> j < k \<Longrightarrow> part_ok w j) \<Longrightarrow>
   \<not> part_ok w k \<Longrightarrow>
     mergeLoop w d fn i =
       (Some (partError w k),
        concat (map (partOps d fn) [i..<k]) @ take (partSteps w k) (partOps d fn k))"
proof (induction w d fn i rule: mergeLoop.induct)
  case (1 w d fn i)
  have lt: "int i < concurrency d" using "1.prems" by linarith
  show ?case
  proof (cases "i = k")
    case True
    then show ?thesis
      using lt "1.prems" by (subst mergeLoop.simps) (simp add: mergePart_fail)
  next
    case False
    then have ik: "i < k" using "1.prems" by simp
    then have ok: "part_ok w i" using "1.prems" by simp
    have rest: "mergeLoop w d fn (Suc i) =
       (Some (partError w k),
        concat (map (partOps d fn) [Suc i..<k]) @ take (partSteps w k) (partOps d fn k))"
      using "1.IH" [OF lt _ refl] "1.prems" ik by (simp add: mergePart_ok ok)
    have "[i..<k] = i # [Suc i..<k]" using ik by (rule upt_conv_Cons)
    then show ?thesis
      using lt by (subst mergeLoop.simps) (simp add: mergePart_ok ok rest)
  qed
qed

text \<open>
  Claim C5. merge opens the destination file with O\_TRUNC; then, for \<open>i = 0\<close> up to
  \<open>N - 1\<close> in ascending order, it opens part \<open>i\<close>, copies it to the destination, closes
  it and removes it; the destination is closed last. When the destination cannot be
  opened, or when a call fails for part \<open>k\<close> (after the parts below \<open>k\<close> were merged),
  merge stops there (nothing is done for a later part) and returns the error of the
  failing call, which multiDownload returns to its caller wrapped in ErrMergeParts.
\<close>

theorem merge_contract:
  "(fails w MergeOpenDest \<longrightarrow>
      merge w d =
        (Some ErrCreateDestination, [OsOpenFile (FileName (options d)) [O_CREATE, O_WRONLY, O_TRUNC]])) \<and>
   (\<not> fails w MergeOpenDest \<and> (\<forall>i < nat (concurrency d). part_ok w i) \<longrightarrow>
      merge w d =
        (None,
         OsOpenFile (FileName (options d)) [O_CREATE, O_WRONLY, O_TRUNC] #
         concat (map (partOps d (FileName (options d))) [0..<nat (concurrency d)]) @
         [FileClose (FileName (options d))])) \<and>
   (\<not> fails w MergeOpenDest \<and> k < nat (concurrency d) \<and> (\<forall>i < k. part_ok w i) \<and>
    \<not> part_ok w k \<longrightarrow>
      merge w d =
        (Some (partError w k),
         OsOpenFile (FileName (options d)) [O_CREATE, O_WRONLY, O_TRUNC] #
         concat (map (partOps d (FileName (options d))) [0..<k]) @
         take (partSteps w k) (partOps d (FileName (options d)) k) @
         [FileClose (FileName (options d))])) \<and>
   (stopSignal d = Open \<and> stop_at w = None \<longrightarrow>
      fst (afterJoin w d (FileName (options d)) dir) = map_option ErrMergeParts (fst (merge w d)))"
proof (intro conjI impI)
  assume "fails w MergeOpenDest"
  then show "merge w d =
        (Some ErrCreateDestination, [OsOpenFile (FileName (options d)) [O_CREATE, O_WRONLY, O_TRUNC]])"
    by (simp add: merge_def Let_def)
next
  assume a: "\<not> fails w MergeOpenDest \<and> (\<forall>i < nat (concurrency d). part_ok w i)"
  then have "mergeLoop w d (FileName (options d)) 0 =
      (None, concat (map (partOps d (FileName (options d))) [0..<nat (concurrency d)]))"
    by (intro mergeLoop_ok) auto
  then show "merge w d =
        (None,
         OsOpenFile (FileName (options d)) [O_CREATE, O_WRONLY, O_TRUNC] #
         concat (map (partOps d (FileName (options d))) [0..<nat (concurrency d)]) @
         [FileClose (FileName (options d))])"
    using a by (simp add: merge_def Let_def)
next
  assume a: "\<not> fails w MergeOpenDest \<and> k < nat (concurrency d) \<and> (\<forall>i < k. part_ok w i) \<and>
    \<not> part_ok w k"
  then have "mergeLoop w d (FileName (options d)) 0 =
       (Some (partError w k),
        concat (map (partOps d (FileName (options d))) [0..<k]) @
        take (partSteps w k) (partOps d (FileName (options d)) k))"
    by (intro mergeLoop_fail) auto
  then show "merge w d =
        (Some (partError w k),
         OsOpenFile (FileName (options d)) [O_CREATE, O_WRONLY, O_TRUNC] #
         concat (map (partOps d (FileName (options d))) [0..<k]) @
         take (partSteps w k) (partOps d (FileName (options d)) k) @
         [FileClose (FileName (options d))])"
    using a by (simp add: merge_def Let_def)
next
  assume "stopSignal d = Open \<and> stop_at w = None"
  then show "fst (afterJoin w d (FileName (options d)) dir) = map_option ErrMergeParts (fst (merge w d))"
    by (simp add: afterJoin_def arrive_def split: prod.splits option.splits)
qed


theorem merge_contract_witness:
  "merge example_world merging_downloader =
     (None,
      [OsOpenFile ''file.bin'' [O_CREATE, O_WRONLY, O_TRUNC],
       OsOpen ''c/file.bin_0'', IoCopy ''file.bin'' ''c/file.bin_0'',
       FileClose ''c/file.bin_0'', OsRemove ''c/file.bin_0'',
       OsOpen ''c/file.bin_1'', IoCopy ''file.bin'' ''c/file.bin_1'',
       FileClose ''c/file.bin_1'', OsRemove ''c/file.bin_1'',
       OsOpen ''c/file.bin_2'', IoCopy ''file.bin'' ''c/file.bin_2'',
       FileClose ''c/file.bin_2'', OsRemove ''c/file.bin_2'',
       FileClose ''file.bin'']) \<and>
   merge copy_fails_world merging_downloader =
     (Some (ErrCopyPart 1),
      [OsOpenFile ''file.bin'' [O_CREATE, O_WRONLY, O_TRUNC],
       OsOpen ''c/file.bin_0'', IoCopy ''file.bin'' ''c/file.bin_0'',
       FileClose ''c/file.bin_0'', OsRemove ''c/file.bin_0'',
       OsOpen ''c/file.bin_1'', IoCopy ''file.bin'' ''c/file.bin_1'',
       FileClose ''c/file.bin_1'',
       FileClose ''file.bin''])"
proof -
  have n: "nat (concurrency merging_downloader) = 3"
    by (simp add: merging_downloader_def example_downloader_def NewDownloader_def)
  have u: "[0..<3] = [0, 1, 2]" "[0..<1] = [0]"
    by (simp_all add: upt_rec)
  have ok: "\<forall>i<3. part_ok example_world i"
    by (simp add: part_ok_def example_world_def)
  have ok1: "\<forall>i<1. part_ok copy_fails_world i"
    by (simp add: part_ok_def copy_fails_world_def)
  have bad: "\<not> part_ok copy_fails_world 1"
    by (simp add: part_ok_def copy_fails_world_def)
  have f: "\<not> fails example_world MergeOpenDest" "\<not> fails copy_fails_world MergeOpenDest"
    by (simp_all add: example_world_def copy_fails_world_def)
  have nm: "FileName (options merging_downloader) = ''file.bin''"
    by (simp add: merging_downloader_def example_downloader_def NewDownloader_def
          filepath_Base_def)
  have ops: "partOps merging_downloader ''file.bin'' 0 =
        [OsOpen ''c/file.bin_0'', IoCopy ''file.bin'' ''c/file.bin_0'',
         FileClose ''c/file.bin_0'', OsRemove ''c/file.bin_0'']"
      "partOps merging_downloader ''file.bin'' (Suc 0) =
        [OsOpen ''c/file.bin_1'', IoCopy ''file.bin'' ''c/file.bin_1'',
         FileClose ''c/file.bin_1'', OsRemove ''c/file.bin_1'']"
      "partOps merging_downloader ''file.bin'' 2 =
        [OsOpen ''c/file.bin_2'', IoCopy ''file.bin'' ''c/file.bin_2'',
         FileClose ''c/file.bin_2'', OsRemove ''c/file.bin_2'']"
    by (simp_all add: partOps_def merging_downloader_def getPartFilename_def filepath_Join_def
          itoa_def utoa.simps digit_def Let_def)
  have st: "partSteps copy_fails_world 1 = 3" "partError copy_fails_world 1 = ErrCopyPart 1"
    by (simp_all add: partSteps_def partError_def copy_fails_world_def)
  have one: "(1::nat) < 3" by simp
  from merge_contract [of example_world merging_downloader 0 "[]"] f(1) ok
  have a: "merge example_world merging_downloader =
        (None,
         OsOpenFile ''file.bin'' [O_CREATE, O_WRONLY, O_TRUNC] #
         concat (map (partOps merging_downloader ''file.bin'') [0, 1, 2]) @
         [FileClose ''file.bin''])"
    unfolding n nm u by blast
  from merge_contract [of copy_fails_world merging_downloader 1 "[]"] f(2) ok1 bad one
  have b: "merge copy_fails_world merging_downloader =
        (Some (ErrCopyPart 1),
         OsOpenFile ''file.bin'' [O_CREATE, O_WRONLY, O_TRUNC] #
         concat (map (partOps merging_downloader ''file.bin'') [0]) @
         take 3 (partOps merging_downloader ''file.bin'' 1) @
         [FileClose ''file.bin''])"
    unfolding n nm u st by blast
  show ?thesis
    unfolding a b by (simp add: ops)
qed

subsection \<open>The progress counter across runs\<close>

lemma progress_from_Nil [simp]: "progress_from b []"
  by (simp add: progress_from_def)

lemma progress_from_append [simp]:
  "progress_from b (xs @ ys) = (progress_from b xs \<and> progress_from b ys)"
  by (simp add: progress_from_def)

lemma progress_from_Cons:
  "progress_from b (e # es) =
     ((case e of OnProgress l t r \<Rightarrow> b \<le> l | _ \<Rightarrow> True) \<and> progress_from b es)"
  by (simp add: progress_from_def)

lemma progress_from_mono: "b' \<le> b \<Longrightarrow> progress_from b evs \<Longrightarrow> progress_from b' evs"
  unfolding progress_from_def list_all_iff by (auto split: event.splits)

lemma Write_grows:
  "Write s p = (n, s', evs) \<Longrightarrow>
     loaded s' = loaded s + int (length p) \<and> progress_from (loaded s) evs"
  by (auto simp add: Write_def Let_def progress_from_Cons)

lemma copyChunks_grows:
  "copyChunks f s cs = (s', evs) \<Longrightarrow> loaded s \<le> loaded s' \<and> progress_from (loaded s) evs"
proof (induction cs arbitrary: s s' evs)
  case Nil
  then show ?case by simp
next
  case (Cons c cs)
  obtain n s1 e1 where w: "Write s c = (n, s1, e1)" by (cases "Write s c") auto
  obtain s2 e2 where r: "copyChunks f s1 cs = (s2, e2)" by (cases "copyChunks f s1 cs") auto
  from Write_grows [OF w] have w1: "loaded s \<le> loaded s1" "progress_from (loaded s) e1" by auto
  from Cons.IH [OF r] have r1: "loaded s1 \<le> loaded s2" "progress_from (loaded s1) e2" by auto
  have "progress_from (loaded s) e2" using progress_from_mono [OF w1(1) r1(2)] .
  with Cons.prems w r w1 r1 show ?case by (auto simp add: progress_from_Cons)
qed

lemma CopyBuffer_grows:
  "CopyBuffer f s cs e = (err, s', evs) \<Longrightarrow>
     loaded s \<le> loaded s' \<and> progress_from (loaded s) evs"
proof -
  assume a: "CopyBuffer f s cs e = (err, s', evs)"
  obtain s1 e1 where r: "copyChunks f s cs = (s1, e1)" by (cases "copyChunks f s cs") auto
  from copyChunks_grows [OF r] a r show ?thesis
    by (cases e) (auto simp add: CopyBuffer_def progress_from_Cons)
qed

lemma fetchPart_grows:
  assumes "fetchPart w d a b i pf = (r, d', evs)"
  shows "loaded (sw d) \<le> loaded (sw d') \<and> progress_from (loaded (sw d)) evs"
proof (cases "get_part w i")
  case GetErr
  with assms show ?thesis
    by (auto simp add: fetchPart_def Let_def progress_from_Cons split: if_splits)
next
  case (GetOk status len chunks e)
  obtain err s' ce where c: "CopyBuffer pf (sw d) chunks e = (err, s', ce)"
    by (cases "CopyBuffer pf (sw d) chunks e") auto
  from CopyBuffer_grows [OF c] assms GetOk c show ?thesis
    by (auto simp add: fetchPart_def Let_def progress_from_Cons split: if_splits)
qed

lemma downloadPartial_grows:
  assumes "downloadPartial w d a b i = (r, d', evs)"
  shows "loaded (sw d) \<le> loaded (sw d') \<and> progress_from (loaded (sw d)) evs"
proof (cases "b \<le> a")
  case True
  with assms show ?thesis by (simp add: downloadPartial_def)
next
  case False
  let ?pf = "getPartFilename d (FileName (options d)) i"
  let ?d1 = "d\<lparr>mCancelFunc := AList.update ?pf (PartCtx i) (mCancelFunc d)\<rparr>"
  obtain r1 d2 e2 where f: "fetchPart w ?d1 a b i ?pf = (r1, d2, e2)"
    by (cases "fetchPart w ?d1 a b i ?pf") auto
  from fetchPart_grows [OF f] assms False f show ?thesis
    by (auto simp add: downloadPartial_def Let_def progress_from_Cons)
qed

lemma readResume_grows:
  assumes "readResume w d i = (n, d', evs)"
  shows "loaded (sw d) \<le> loaded (sw d') \<and> progress_from (loaded (sw d)) evs"
proof (cases "resume d")
  case False
  with assms show ?thesis by (simp add: readResume_def)
next
  case True
  show ?thesis
  proof (cases "read_part w i")
    case None
    with assms True show ?thesis by (auto simp add: readResume_def Let_def progress_from_Cons)
  next
    case (Some content)
    obtain m s' e1 where wr: "Write (sw d) content = (m, s', e1)"
      by (cases "Write (sw d) content") auto
    from Write_grows [OF wr] assms True Some wr show ?thesis
      by (auto simp add: readResume_def Let_def progress_from_Cons)
  qed
qed

lemma worker_grows:
  assumes "worker w d L ps i rs = (d', evs)"
  shows "loaded (sw d) \<le> loaded (sw d') \<and> progress_from (loaded (sw d)) evs"
proof -
  obtain n d1 e1 where rr: "readResume w d i = (n, d1, e1)"
    by (cases "readResume w d i") auto
  let ?hi = "if int i = concurrency d - 1 then L else rs + ps"
  obtain r d2 e2 where dp: "downloadPartial w d1 (rs + n) ?hi i = (r, d2, e2)"
    by (cases "downloadPartial w d1 (rs + n) ?hi i") auto
  from readResume_grows [OF rr] have a: "loaded (sw d) \<le> loaded (sw d1)" "progress_from (loaded (sw d)) e1"
    by auto
  from downloadPartial_grows [OF dp] have b: "loaded (sw d1) \<le> loaded (sw d2)" "progress_from (loaded (sw d1)) e2"
    by auto
  have "progress_from (loaded (sw d)) e2" using progress_from_mono [OF a(1) b(2)] .
  with assms rr dp a b show ?thesis by (auto simp add: worker_def Let_def)
qed

lemma arrive_grows:
  "arrive w k d = (d', evs) \<Longrightarrow> sw d' = sw d \<and> progress_from b evs"
  by (cases "stopSignal d")
     (auto simp add: arrive_def Stop_def progress_from_def list_all_iff split: if_splits)

lemma list_all_progress_mono:
  "b' \<le> b \<Longrightarrow> list_all (progress_from b) trs \<Longrightarrow> list_all (progress_from b') trs"
  by (induction trs) (auto intro: progress_from_mono)

lemma spawn_grows:
  "spawn w n d L ps i rs = (stopped, d', evs, trs) \<Longrightarrow>
     loaded (sw d) \<le> loaded (sw d') \<and> progress_from (loaded (sw d)) evs \<and>
     list_all (progress_from (loaded (sw d))) trs"
proof (induction w n d L ps i rs arbitrary: stopped d' evs trs rule: spawn.induct)
  case (1 w n d L ps i rs)
  show ?case
  proof (cases "int i < n")
    case False
    with "1.prems" show ?thesis by (subst (asm) spawn.simps) simp
  next
    case True
    obtain d0 e0 where ar: "arrive w i d = (d0, e0)" by (cases "arrive w i d") auto
    from arrive_grows [OF ar] have a: "sw d0 = sw d" "progress_from (loaded (sw d)) e0" by auto
    show ?thesis
    proof (cases "stopSignal d0 = Closed")
      case c: True
      with "1.prems" True ar a show ?thesis by (subst (asm) spawn.simps) auto
    next
      case c: False
      obtain d1 tr where wk: "worker w d0 L ps i rs = (d1, tr)"
        by (cases "worker w d0 L ps i rs") auto
      obtain st d2 e2 trs2 where sp: "spawn w n d1 L ps (Suc i) (rs + ps) = (st, d2, e2, trs2)"
        by (cases "spawn w n d1 L ps (Suc i) (rs + ps)") auto
      from worker_grows [OF wk] a have b: "loaded (sw d) \<le> loaded (sw d1)" "progress_from (loaded (sw d)) tr"
        by auto
      from "1.IH" [OF True ar [symmetric] c wk [symmetric] sp]
      have ih: "loaded (sw d1) \<le> loaded (sw d2)" "progress_from (loaded (sw d1)) e2"
        "list_all (progress_from (loaded (sw d1))) trs2" by auto
      have "progress_from (loaded (sw d)) e2" using progress_from_mono [OF b(1) ih(2)] .
      moreover have "list_all (progress_from (loaded (sw d))) trs2"
        using list_all_progress_mono [OF b(1) ih(3)] .
      ultimately show ?thesis
        using "1.prems" True ar c wk sp a b ih by (subst (asm) spawn.simps) auto
    qed
  qed
qed

lemma mergePart_progress: "progress_from b (snd (mergePart w d fn i))"
  by (simp add: mergePart_def Let_def progress_from_Cons)

lemma mergeLoop_progress: "progress_from b (snd (mergeLoop w d fn i))"
proof (induction w d fn i rule: mergeLoop.induct)
  case (1 w d fn i)
  show ?case
  proof (cases "int i < concurrency d")
    case False
    then show ?thesis by (subst mergeLoop.simps) simp
  next
    case True
    obtain r evs where mp: "mergePart w d fn i = (r, evs)" by (cases "mergePart w d fn i") auto
    have p: "progress_from b evs" using mergePart_progress [of b w d fn i] mp by simp
    show ?thesis
    proof (cases r)
      case (Some e)
      with True mp p show ?thesis by (subst mergeLoop.simps) simp
    next
      case None
      have "progress_from b (snd (mergeLoop w d fn (Suc i)))"
        using "1.IH" [OF True mp [symmetric] None] .
      with True mp p None show ?thesis
        by (subst mergeLoop.simps) (simp add: case_prod_beta)
    qed
  qed
qed

lemma merge_progress: "progress_from b (snd (merge w d))"
  using mergeLoop_progress [of b w d "FileName (options d)" 0]
  by (simp add: merge_def Let_def progress_from_Cons case_prod_beta)

lemma afterJoin_grows:
  assumes "afterJoin w d fn dir = (r, d', evs)"
  shows "sw d' = sw d \<and> progress_from b evs"
proof -
  obtain d1 e1 where ar: "arrive w (nat (concurrency d)) d = (d1, e1)"
    by (cases "arrive w (nat (concurrency d)) d") auto
  from arrive_grows [OF ar] have a: "sw d1 = sw d" "progress_from b e1" by auto
  obtain mr em where m: "merge w d1 = (mr, em)" by (cases "merge w d1") auto
  have "progress_from b em" using merge_progress [of b w d1] m by simp
  with assms ar a m show ?thesis
    by (auto simp add: afterJoin_def progress_from_Cons split: if_splits option.splits)
qed

lemma multiDownload_grows:
  assumes "multiDownload w d L = (r, d', evs, trs)"
  shows "loaded (sw d) \<le> loaded (sw d') \<and> progress_from (loaded (sw d)) evs \<and>
         list_all (progress_from (loaded (sw d))) trs"
proof (cases "L \<le> 0 \<or> concurrency d = 0 \<or> fails w MkdirAllPartDir")
  case True
  with assms show ?thesis
    by (auto simp add: multiDownload_def Let_def progress_from_Cons split: if_splits)
next
  case False
  let ?fn = "FileName (options d)"
  let ?d1 = "d\<lparr>sw := (sw d)\<lparr>total := L\<rparr>\<rparr>"
  let ?dir = "getPartDir ?d1 ?fn"
  let ?d2 = "?d1\<lparr>partDir := ?dir\<rparr>"
  obtain st d3 e3 trs3 where
    sp: "spawn w (concurrency d) ?d2 L (go_div L (concurrency d)) 0 0 = (st, d3, e3, trs3)"
    by (cases "spawn w (concurrency d) ?d2 L (go_div L (concurrency d)) 0 0") auto
  from spawn_grows [OF sp]
  have s: "loaded (sw d) \<le> loaded (sw d3)" "progress_from (loaded (sw d)) e3"
    "list_all (progress_from (loaded (sw d))) trs3" by auto
  obtain r4 d4 e4 where aj: "afterJoin w d3 ?fn ?dir = (r4, d4, e4)"
    by (cases "afterJoin w d3 ?fn ?dir") auto
  from afterJoin_grows [OF aj, of "loaded (sw d)"]
  have j: "sw d4 = sw d3" "progress_from (loaded (sw d)) e4" by auto
  from assms False sp aj s j show ?thesis
    by (auto simp add: multiDownload_def Let_def progress_from_Cons split: if_splits)
qed

lemma fetchSingle_grows:
  assumes "fetchSingle w d fn = (r, d', evs)"
  shows "loaded (sw d) \<le> loaded (sw d') \<and> progress_from (loaded (sw d)) evs"
proof (cases "get_single w")
  case GetErr
  with assms show ?thesis
    by (auto simp add: fetchSingle_def Let_def progress_from_Cons split: if_splits)
next
  case (GetOk status len chunks e)
  let ?d1 = "d\<lparr>sw := (sw d)\<lparr>total := len\<rparr>\<rparr>"
  obtain err s' ce where c: "CopyBuffer fn (sw ?d1) chunks e = (err, s', ce)"
    by (cases "CopyBuffer fn (sw ?d1) chunks e") auto
  from CopyBuffer_grows [OF c] have g: "loaded (sw d) \<le> loaded s'" "progress_from (loaded (sw d)) ce"
    by auto
  obtain d2 e2 where ar: "arrive w 0 (?d1\<lparr>sw := s'\<rparr>) = (d2, e2)"
    by (cases "arrive w 0 (?d1\<lparr>sw := s'\<rparr>)") auto
  from arrive_grows [OF ar, of "loaded (sw d)"] have a: "sw d2 = s'" "progress_from (loaded (sw d)) e2"
    by auto
  from assms GetOk c g ar a show ?thesis
    by (auto simp add: fetchSingle_def Let_def progress_from_Cons split: if_splits)
qed

lemma singleDownload_grows:
  assumes "singleDownload w d = (r, d', evs)"
  shows "loaded (sw d) \<le> loaded (sw d') \<and> progress_from (loaded (sw d)) evs"
proof -
  let ?fn = "FileName (options d)"
  let ?d1 = "d\<lparr>mCancelFunc := AList.update ?fn SingleCtx (mCancelFunc d)\<rparr>"
  obtain r1 d2 e2 where f: "fetchSingle w ?d1 ?fn = (r1, d2, e2)"
    by (cases "fetchSingle w ?d1 ?fn") auto
  from fetchSingle_grows [OF f] assms f show ?thesis
    by (auto simp add: singleDownload_def Let_def progress_from_Cons)
qed

lemma download_grows:
  assumes "download w d = (r, d', evs, trs)"
  shows "loaded (sw d) \<le> loaded (sw d') \<and> progress_from (loaded (sw d)) evs \<and>
         list_all (progress_from (loaded (sw d))) trs"
proof (cases "url d = []")
  case True
  with assms show ?thesis by (auto simp add: download_def)
next
  case False
  show ?thesis
  proof (cases "head w")
    case HeadErr
    with assms False show ?thesis by (auto simp add: download_def progress_from_Cons)
  next
    case (HeadOk status ar len)
    let ?d1 = "d\<lparr>sw := (sw d)\<lparr>rate := ''0.00 MB/s''\<rparr>\<rparr>"
    show ?thesis
    proof (cases "status = 200 \<and> ar = ''bytes''")
      case True
      obtain r2 d2 e2 t2 where m: "multiDownload w ?d1 len = (r2, d2, e2, t2)"
        by (cases "multiDownload w ?d1 len") auto
      from multiDownload_grows [OF m] assms False HeadOk True m show ?thesis
        by (auto simp add: download_def Let_def progress_from_Cons)
    next
      case f: False
      obtain r2 d2 e2 where m: "singleDownload w ?d1 = (r2, d2, e2)"
        by (cases "singleDownload w ?d1") auto
      from singleDownload_grows [OF m] assms False HeadOk f m show ?thesis
        by (auto simp add: download_def Let_def progress_from_Cons)
    qed
  qed
qed

text \<open>
  Claim C10. When \<open>Start\<close> is called while the stop signal is not raised, \<open>init\<close> is not
  called: the download runs on the state as it is (the loaded counter, the stop signal
  and the cancel registry are those of the state). The run then only adds to the loaded
  counter, and every on\_progress callback of the run reports a loaded value of at least
  the value the counter had before the run; so a run that follows a completed one
  continues from the total of that one instead of starting from zero.
\<close>

theorem Start_without_init:
  assumes "stopSignal d = Open"
  shows "Start w d = download w d \<and>
         (case Start w d of (r, d', evs, trs) \<Rightarrow>
            loaded (sw d) \<le> loaded (sw d') \<and> progress_from (loaded (sw d)) evs \<and>
            list_all (progress_from (loaded (sw d))) trs)"
proof -
  have eq: "Start w d = download w d" using assms by (simp add: Start_def)
  obtain r d' evs trs where dl: "download w d = (r, d', evs, trs)"
    by (cases "download w d") auto
  from download_grows [OF dl] eq dl show ?thesis by simp
qed

lemma first_run:
  "Start single_world reporting_downloader =
     (None, reporting_downloader\<lparr>sw := (sw reporting_downloader)\<lparr>loaded := 10, total := 10, accPacketSize := 10\<rparr>\<rparr>,
      [HttpHead ''http://host/file.bin'', GoCalcRate, MapStore ''file.bin'' SingleCtx,
       HttpGet ''http://host/file.bin'' None,
       OsOpenFile ''file.bin'' [O_CREATE, O_WRONLY, O_TRUNC],
       FileWrite ''file.bin'' 5, SinkWrite 5, OnProgress 5 10 ''0.00 MB/s'',
       FileWrite ''file.bin'' 5, SinkWrite 5, OnProgress 10 10 ''0.00 MB/s'',
       FileClose ''file.bin'', BodyClose, MapDelete ''file.bin'', CancelRate, BodyClose], [])"
  by (simp add: single_world_def example_world_def reporting_downloader_def example_downloader_def
        OnProgress_set_def NewDownloader_def filepath_Base_def Start_def download_def singleDownload_def
        fetchSingle_def CopyBuffer_def Write_def arrive_def Let_def)

theorem Start_without_init_witness:
  "stopSignal (fst (snd (Start single_world reporting_downloader))) = Open \<and>
   loaded (sw (fst (snd (Start single_world reporting_downloader)))) = 10 \<and>
   Start single_world (fst (snd (Start single_world reporting_downloader))) =
     (None,
      reporting_downloader
        \<lparr>sw := (sw reporting_downloader)\<lparr>loaded := 20, total := 10, accPacketSize := 20\<rparr>\<rparr>,
      [HttpHead ''http://host/file.bin'', GoCalcRate, MapStore ''file.bin'' SingleCtx,
       HttpGet ''http://host/file.bin'' None,
       OsOpenFile ''file.bin'' [O_CREATE, O_WRONLY, O_TRUNC],
       FileWrite ''file.bin'' 5, SinkWrite 5, OnProgress 15 10 ''0.00 MB/s'',
       FileWrite ''file.bin'' 5, SinkWrite 5, OnProgress 20 10 ''0.00 MB/s'',
       FileClose ''file.bin'', BodyClose, MapDelete ''file.bin'', CancelRate, BodyClose], [])"
proof -
  let ?d1 = "reporting_downloader
        \<lparr>sw := (sw reporting_downloader)\<lparr>loaded := 10, total := 10, accPacketSize := 10\<rparr>\<rparr>"
  have d1: "fst (snd (Start single_world reporting_downloader)) = ?d1"
    by (simp add: first_run)
  have o: "stopSignal ?d1 = Open"
    by (simp add: reporting_downloader_def example_downloader_def OnProgress_set_def
          NewDownloader_def)
  have run: "download single_world ?d1 =
     (None,
      reporting_downloader
        \<lparr>sw := (sw reporting_downloader)\<lparr>loaded := 20, total := 10, accPacketSize := 20\<rparr>\<rparr>,
      [HttpHead ''http://host/file.bin'', GoCalcRate, MapStore ''file.bin'' SingleCtx,
       HttpGet ''http://host/file.bin'' None,
       OsOpenFile ''file.bin'' [O_CREATE, O_WRONLY, O_TRUNC],
       FileWrite ''file.bin'' 5, SinkWrite 5, OnProgress 15 10 ''0.00 MB/s'',
       FileWrite ''file.bin'' 5, SinkWrite 5, OnProgress 20 10 ''0.00 MB/s'',
       FileClose ''file.bin'', BodyClose, MapDelete ''file.bin'', CancelRate, BodyClose], [])"
    by (simp add: single_world_def example_world_def reporting_downloader_def
          example_downloader_def OnProgress_set_def NewDownloader_def filepath_Base_def
          download_def singleDownload_def fetchSingle_def CopyBuffer_def Write_def arrive_def
          Let_def)
  have o': "stopSignal reporting_downloader = Open"
    by (simp add: reporting_downloader_def example_downloader_def OnProgress_set_def
          NewDownloader_def)
  show ?thesis
    using Start_without_init [OF o, of single_world] by (simp add: d1 run o')
qed

subsection \<open>The concurrency of a new downloader\<close>

text \<open>
  NewDownloader replaces a concurrency of 0 by the number of CPUs, so that the
  concurrency of a downloader is never 0 and the division in multiDownload never panics;
  and when no option passes a negative value, the concurrency is at least 1.
\<close>

lemma NewDownloader_zero_default:
  "concurrency (NewDownloader numCPU u [WithConcurrency 0]) = numCPU"
  by (simp add: NewDownloader_def)

lemma NewDownloader_concurrency_nonzero:
  "numCPU \<noteq> 0 \<Longrightarrow> concurrency (NewDownloader numCPU u opts) \<noteq> 0"
  by (simp add: NewDownloader_def Let_def)

lemma fold_apply_option_nonneg:
  "0 \<le> Concurrency opt \<Longrightarrow> (\<And>c. WithConcurrency c \<in> set opts \<Longrightarrow> 0 \<le> c) \<Longrightarrow>
     0 \<le> Concurrency (fold apply_option opts opt)"
proof (induction opts arbitrary: opt)
  case Nil
  then show ?case by simp
next
  case (Cons o1 opts)
  have "0 \<le> Concurrency (apply_option o1 opt)"
    using Cons.prems by (cases o1) auto
  then show ?case using Cons by simp
qed

lemma NewDownloader_concurrency_positive:
  assumes "1 \<le> numCPU" and "\<And>c. WithConcurrency c \<in> set opts \<Longrightarrow> 0 \<le> c"
  shows "1 \<le> concurrency (NewDownloader numCPU u opts)"
proof -
  let ?o = "\<lparr>FileName = filepath_Base u, BaseDir = DefaultBaseDir,
             Concurrency = numCPU, Resume = True\<rparr>"
  have "0 \<le> Concurrency (fold apply_option opts ?o)"
    using assms by (intro fold_apply_option_nonneg) auto
  then show ?thesis using assms(1) by (auto simp add: NewDownloader_def Let_def)
qed

lemma afterJoin_no_panic: "afterJoin w d fn dir = (r, d', evs) \<Longrightarrow> r \<noteq> Some PanicDivideByZero"
  by (auto simp add: afterJoin_def split: prod.splits option.splits if_splits)

lemma multiDownload_no_panic:
  "concurrency d \<noteq> 0 \<Longrightarrow> fst (multiDownload w d L) \<noteq> Some PanicDivideByZero"
  by (auto simp add: multiDownload_def Let_def split: prod.splits if_splits
        dest: afterJoin_no_panic)

text \<open>
  Claim C8. A caller-supplied concurrency of 0 is read as the number of logical CPUs, so
  that the effective concurrency is always at least 1 and \<open>partSize = L / concurrency\<close>
  never divides by zero. The lemmas above give the first and the last part. The middle
  part fails for a negative value: NewDownloader keeps it, although the source declares
  ErrInvalidConcurrency, "concurrency must be greater than 0". With concurrency \<open>-1\<close>
  a multi-mode run starts no worker, merges no part and still reports on\_finished, for
  a destination file that was only created.
\<close>

theorem NewDownloader_negative_concurrency:
  "concurrency (NewDownloader 8 ''http://host/file.bin'' [WithConcurrency (- 1)]) = - 1 \<and>
   fst (Start example_world
          ((NewDownloader 8 ''http://host/file.bin'' [WithConcurrency (- 1)])
             \<lparr>onDownloadFinished := True\<rparr>)) = None \<and>
   snd (snd (Start example_world
          ((NewDownloader 8 ''http://host/file.bin'' [WithConcurrency (- 1)])
             \<lparr>onDownloadFinished := True\<rparr>))) =
     ([HttpHead ''http://host/file.bin'', GoCalcRate,
       OsMkdirAll ''downloader_cache/file.bin'', WgWait,
       OsOpenFile ''file.bin'' [O_CREATE, O_WRONLY, O_TRUNC], FileClose ''file.bin'',
       OsRemoveAll ''downloader_cache/file.bin'', OnFinished ''file.bin'',
       CancelRate, BodyClose], [])"
  by (simp add: example_world_def NewDownloader_def filepath_Base_def DefaultBaseDir_def
        Start_def download_def multiDownload_def go_div_def getPartDir_def filepath_Join_def
        spawn.simps afterJoin_def arrive_def merge_def mergeLoop.simps Let_def)


subsection \<open>The ranges requested in multi-mode\<close>

lemma requested_Nil [simp]: "requested [] = []"
  by (simp add: requested_def)

lemma requested_append [simp]: "requested (xs @ ys) = requested xs @ requested ys"
  by (simp add: requested_def)

lemma requested_Cons:
  "requested (e # es) = (case e of HttpGet u (Some r) \<Rightarrow> [r] | _ \<Rightarrow> []) @ requested es"
  by (simp add: requested_def)

lemma requested_Write: "requested (snd (snd (Write s p))) = []"
  by (simp add: Write_def Let_def requested_Cons)

lemma requested_copyChunks: "requested (snd (copyChunks f s cs)) = []"
proof (induction cs arbitrary: s)
  case Nil
  then show ?case by simp
next
  case (Cons c cs)
  obtain n s1 e1 where w: "Write s c = (n, s1, e1)" by (cases "Write s c") auto
  have "requested e1 = []" using requested_Write [of s c] w by simp
  moreover have "requested (snd (copyChunks f s1 cs)) = []" by (rule Cons.IH)
  ultimately show ?case using w by (simp add: requested_Cons case_prod_beta)
qed

lemma requested_CopyBuffer: "requested (snd (snd (CopyBuffer f s cs e))) = []"
  using requested_copyChunks [of f s cs]
  by (cases e) (simp_all add: CopyBuffer_def case_prod_beta requested_Cons)

text \<open>Frame: a worker changes the selfWriter and the cancel registry only.\<close>

lemma fetchPart_frame:
  "fetchPart w d a b i pf = (r, d', evs) \<Longrightarrow> d' = d\<lparr>sw := sw d'\<rparr>"
  by (auto simp add: fetchPart_def Let_def split: if_splits get_result.splits prod.splits)

lemma downloadPartial_frame:
  assumes "downloadPartial w d a b i = (r, d', evs)"
  shows "d' = d\<lparr>sw := sw d', mCancelFunc := mCancelFunc d'\<rparr>"
proof (cases "b \<le> a")
  case True
  with assms show ?thesis by (simp add: downloadPartial_def)
next
  case False
  let ?pf = "getPartFilename d (FileName (options d)) i"
  let ?d1 = "d\<lparr>mCancelFunc := AList.update ?pf (PartCtx i) (mCancelFunc d)\<rparr>"
  obtain r1 d2 e2 where f: "fetchPart w ?d1 a b i ?pf = (r1, d2, e2)"
    by (cases "fetchPart w ?d1 a b i ?pf") auto
  from fetchPart_frame [OF f] have "d2 = ?d1\<lparr>sw := sw d2\<rparr>" .
  then have "d2\<lparr>mCancelFunc := AList.delete ?pf (mCancelFunc d2)\<rparr> =
             d\<lparr>sw := sw d2, mCancelFunc := AList.delete ?pf (mCancelFunc d2)\<rparr>"
    by (metis (no_types) Downloader.surjective Downloader.update_convs(5,8))
  with assms False f show ?thesis by (auto simp add: downloadPartial_def Let_def)
qed

lemma readResume_frame:
  "readResume w d i = (n, d', evs) \<Longrightarrow> d' = d\<lparr>sw := sw d'\<rparr>"
  by (auto simp add: readResume_def Let_def split: if_splits option.splits prod.splits)

lemma worker_frame:
  assumes "worker w d L ps i rs = (d', evs)"
  shows "d' = d\<lparr>sw := sw d', mCancelFunc := mCancelFunc d'\<rparr>"
proof -
  obtain n d1 e1 where rr: "readResume w d i = (n, d1, e1)"
    by (cases "readResume w d i") auto
  let ?hi = "if int i = concurrency d - 1 then L else rs + ps"
  obtain r d2 e2 where dp: "downloadPartial w d1 (rs + n) ?hi i = (r, d2, e2)"
    by (cases "downloadPartial w d1 (rs + n) ?hi i") auto
  from readResume_frame [OF rr] have a: "d1 = d\<lparr>sw := sw d1\<rparr>" .
  from downloadPartial_frame [OF dp] have b: "d2 = d1\<lparr>sw := sw d2, mCancelFunc := mCancelFunc d2\<rparr>" .
  have "d2 = d\<lparr>sw := sw d2, mCancelFunc := mCancelFunc d2\<rparr>"
    by (subst b, subst a) simp
  with assms rr dp show ?thesis by (auto simp add: worker_def Let_def)
qed

lemma worker_fields:
  assumes "worker w d L ps i rs = (d', evs)"
  shows "concurrency d' = concurrency d" "stopSignal d' = stopSignal d" "url d' = url d"
    "resume d' = resume d" "options d' = options d" "partDir d' = partDir d"
    "onDownloadCanceled d' = onDownloadCanceled d" "onDownloadFinished d' = onDownloadFinished d"
  by (subst worker_frame [OF assms], simp)+

lemma requested_fetchPart:
  assumes "\<not> request_err w" and "fetchPart w d a b i pf = (r, d', evs)"
  shows "requested evs = [(a, b - 1)]"
proof (cases "get_part w i")
  case GetErr
  with assms show ?thesis by (auto simp add: fetchPart_def Let_def requested_Cons)
next
  case (GetOk status len chunks e)
  have "requested (snd (snd (CopyBuffer pf (sw d) chunks e))) = []"
    by (rule requested_CopyBuffer)
  with assms GetOk show ?thesis
    by (auto simp add: fetchPart_def Let_def requested_Cons split: if_splits prod.splits)
qed

lemma requested_downloadPartial:
  assumes "\<not> request_err w" and "downloadPartial w d a b i = (r, d', evs)"
  shows "requested evs = (if a < b then [(a, b - 1)] else [])"
proof (cases "b \<le> a")
  case True
  with assms show ?thesis by (simp add: downloadPartial_def)
next
  case False
  let ?pf = "getPartFilename d (FileName (options d)) i"
  let ?d1 = "d\<lparr>mCancelFunc := AList.update ?pf (PartCtx i) (mCancelFunc d)\<rparr>"
  obtain r1 d2 e2 where f: "fetchPart w ?d1 a b i ?pf = (r1, d2, e2)"
    by (cases "fetchPart w ?d1 a b i ?pf") auto
  from requested_fetchPart [OF assms(1) f] assms(2) False f show ?thesis
    by (auto simp add: downloadPartial_def Let_def requested_Cons)
qed

lemma requested_readResume: "requested (snd (snd (readResume w d i))) = []"
  using requested_Write
  by (auto simp add: readResume_def Let_def requested_Cons split: option.splits prod.splits)
     (metis snd_conv)

lemma requested_worker:
  assumes "\<not> request_err w" and "worker w d L ps i rs = (d', evs)"
  shows "requested evs =
           (let lo = rs + fst (readResume w d i);
                hi = (if int i = concurrency d - 1 then L else rs + ps)
            in if lo < hi then [(lo, hi - 1)] else [])"
proof -
  obtain n d1 e1 where rr: "readResume w d i = (n, d1, e1)"
    by (cases "readResume w d i") auto
  let ?hi = "if int i = concurrency d - 1 then L else rs + ps"
  obtain r d2 e2 where dp: "downloadPartial w d1 (rs + n) ?hi i = (r, d2, e2)"
    by (cases "downloadPartial w d1 (rs + n) ?hi i") auto
  have "requested e1 = []" using requested_readResume [of w d i] rr by simp
  with requested_downloadPartial [OF assms(1) dp] assms(2) rr dp show ?thesis
    by (auto simp add: worker_def Let_def)
qed

lemma span_worker:
  assumes "\<not> request_err w" and "read_part w i = None"
      and "worker w d L ps i rs = (d', evs)"
  shows "span evs = {rs ..< (if int i = concurrency d - 1 then L else rs + ps)} \<and>
         length (requested evs) \<le> 1"
proof -
  have "fst (readResume w d i) = 0" using assms(2) by (simp add: readResume_def Let_def)
  with requested_worker [OF assms(1,3)] show ?thesis
    by (auto simp add: span_def Let_def)
qed

lemma arrive_none: "stop_at w \<noteq> Some k \<Longrightarrow> arrive w k d = (d, [])"
  by (simp add: arrive_def)

lemma spawn_ranges:
  "\<not> request_err w \<Longrightarrow> (\<forall>k. read_part w k = None) \<Longrightarrow>
   (\<forall>k. int k < n \<longrightarrow> stop_at w \<noteq> Some k) \<Longrightarrow>
   stopSignal d = Open \<Longrightarrow> concurrency d = n \<Longrightarrow>
   spawn w n d L ps i rs = (stopped, d', evs, trs) \<Longrightarrow>
     \<not> stopped \<and> length trs = nat (n - int i) \<and>
     (\<forall>k < length trs.
        span (trs ! k) =
          {rs + int k * ps ..<
             (if int (i + k) = n - 1 then L else rs + (int k + 1) * ps)} \<and>
        length (requested (trs ! k)) \<le> 1)"
proof (induction w n d L ps i rs arbitrary: stopped d' evs trs rule: spawn.induct)
  case (1 w n d L ps i rs)
  show ?case
  proof (cases "int i < n")
    case False
    with "1.prems" show ?thesis by (subst (asm) spawn.simps) simp
  next
    case True
    have ne: "stop_at w \<noteq> Some i" using "1.prems"(3) True by blast
    have ar: "arrive w i d = (d, [])" using ne by (rule arrive_none)
    have op: "stopSignal d \<noteq> Closed" using "1.prems" by simp
    have rp: "read_part w i = None" using "1.prems"(2) by blast
    obtain d1 tr where wk: "worker w d L ps i rs = (d1, tr)"
      by (cases "worker w d L ps i rs") auto
    obtain st d2 e2 trs2 where sp: "spawn w n d1 L ps (Suc i) (rs + ps) = (st, d2, e2, trs2)"
      by (cases "spawn w n d1 L ps (Suc i) (rs + ps)") auto
    have eq: "trs = tr # trs2" "stopped = st"
      using "1.prems"(6) True ar op wk sp by (subst (asm) spawn.simps, simp)+
    have f1: "stopSignal d1 = Open" "concurrency d1 = n"
      using worker_fields [OF wk] "1.prems" by simp_all
    from "1.IH" [OF True ar [symmetric] op wk [symmetric] "1.prems"(1,2,3) f1 sp]
    have ih: "\<not> st" "length trs2 = nat (n - int (Suc i))"
      "\<forall>k < length trs2.
          span (trs2 ! k) =
            {rs + ps + int k * ps ..<
               (if int (Suc i + k) = n - 1 then L else rs + ps + (int k + 1) * ps)} \<and>
          length (requested (trs2 ! k)) \<le> 1"
      by auto
    from span_worker [OF "1.prems"(1) rp wk] "1.prems"(5)
    have w0: "span tr = {rs ..< (if int i = n - 1 then L else rs + ps)}"
      "length (requested tr) \<le> 1" by auto
    have len: "length trs = nat (n - int i)" using eq ih(2) True by simp
    have "\<forall>k < length trs.
              span (trs ! k) =
                {rs + int k * ps ..<
                   (if int (i + k) = n - 1 then L else rs + (int k + 1) * ps)} \<and>
              length (requested (trs ! k)) \<le> 1"
    proof (intro allI impI)
      fix k assume k: "k < length trs"
      show "span (trs ! k) =
                {rs + int k * ps ..<
                   (if int (i + k) = n - 1 then L else rs + (int k + 1) * ps)} \<and>
              length (requested (trs ! k)) \<le> 1"
      proof (cases k)
        case 0
        with w0 eq show ?thesis by simp
      next
        case (Suc k')
        then have "k' < length trs2" using k eq by simp
        with ih(3) have "span (trs2 ! k') =
            {rs + ps + int k' * ps ..<
               (if int (Suc i + k') = n - 1 then L else rs + ps + (int k' + 1) * ps)} \<and>
          length (requested (trs2 ! k')) \<le> 1" by blast
        then show ?thesis using Suc eq by (simp add: algebra_simps)
      qed
    qed
    with ih(1) len eq show ?thesis by simp
  qed
qed

lemma union_equal_parts:
  "0 \<le> ps \<Longrightarrow> (\<Union>k<m. {int k * ps ..< (int k + 1) * ps}) = {0 ..< int m * ps}"
proof (induction m)
  case 0
  then show ?case by simp
next
  case (Suc m)
  have "(\<Union>k<Suc m. {int k * ps ..< (int k + 1) * ps}) =
          {0 ..< int m * ps} \<union> {int m * ps ..< (int m + 1) * ps}"
    using Suc by (simp add: lessThan_Suc Un_commute)
  also have "\<dots> = {0 ..< (int m + 1) * ps}"
    using Suc.prems by (intro ivl_disj_un_two) (simp_all add: mult_right_mono)
  finally show ?case by (simp add: algebra_simps)
qed

lemma parts_disjoint:
  assumes "0 \<le> ps" and "i < j"
  shows "{int i * ps ..< (int i + 1) * ps} \<inter> {int j * ps ..< u} = {}"
proof -
  have "int i + 1 \<le> int j" using assms(2) by simp
  then have "(int i + 1) * ps \<le> int j * ps" using assms(1) by (rule mult_right_mono)
  then show ?thesis by auto
qed

lemma go_div_pos: "0 < a \<Longrightarrow> 0 < b \<Longrightarrow> go_div a b = a div b"
  by (simp add: go_div_def)

lemma partition_ranges:
  fixes L n :: int and S :: "nat \<Rightarrow> int set"
  assumes "0 < L" and "1 \<le> n"
      and S: "\<And>k. k < nat n \<Longrightarrow>
                S k = {int k * (L div n) ..<
                         (if int k = n - 1 then L else (int k + 1) * (L div n))}"
  shows "(\<forall>i < nat n. \<forall>j < nat n. i \<noteq> j \<longrightarrow> S i \<inter> S j = {}) \<and>
         (\<Union>i < nat n. S i) = {0..<L}"
proof -
  define ps where "ps = L div n"
  define m where "m = nat n - 1"
  have ps0: "0 \<le> ps" using assms(1,2) by (simp add: ps_def pos_imp_zdiv_nonneg_iff)
  have N: "nat n = Suc m" "int m = n - 1" using assms(2) by (simp_all add: m_def)
  have "n * ps + L mod n = L" by (simp add: ps_def)
  moreover have "0 \<le> L mod n" using assms(2) by simp
  ultimately have "n * ps \<le> L" by linarith
  moreover have "int m * ps \<le> n * ps" using N ps0 by (intro mult_right_mono) simp_all
  ultimately have le: "int m * ps \<le> L" by linarith
  have low: "S k = {int k * ps ..< (int k + 1) * ps}" if "k < m" for k
    using S [of k] that N by (simp add: ps_def)
  have top: "S m = {int m * ps ..< L}"
    using S [of m] N by (simp add: ps_def)
  have dis: "S i \<inter> S j = {}" if "i < j" "j < nat n" for i j
  proof -
    have i: "S i = {int i * ps ..< (int i + 1) * ps}" using that N by (intro low) simp
    have "\<exists>u. S j = {int j * ps ..< u}"
      using S [OF that(2)] by (auto simp add: ps_def)
    then obtain u where "S j = {int j * ps ..< u}" ..
    with i parts_disjoint [OF ps0 that(1), of u] show ?thesis by simp
  qed
  have d: "\<forall>i < nat n. \<forall>j < nat n. i \<noteq> j \<longrightarrow> S i \<inter> S j = {}"
  proof (intro allI impI)
    fix i j assume "i < nat n" "j < nat n" "i \<noteq> j"
    then consider "i < j" | "j < i" by linarith
    then show "S i \<inter> S j = {}"
    proof cases
      case 1
      then show ?thesis using dis \<open>j < nat n\<close> by blast
    next
      case 2
      then have "S j \<inter> S i = {}" using dis \<open>i < nat n\<close> by blast
      then show ?thesis by blast
    qed
  qed
  have "(\<Union>i < nat n. S i) = (\<Union>k<m. S k) \<union> S m"
    by (simp add: N lessThan_Suc Un_commute)
  also have "(\<Union>k<m. S k) = (\<Union>k<m. {int k * ps ..< (int k + 1) * ps})"
    using low by simp
  also have "\<dots> = {0 ..< int m * ps}" using ps0 by (rule union_equal_parts)
  also have "{0 ..< int m * ps} \<union> S m = {0..<L}"
    unfolding top using ps0 le by (intro ivl_disj_un_two) simp_all
  finally have u: "(\<Union>i < nat n. S i) = {0..<L}" .
  from d u show ?thesis by blast
qed

text \<open>
  Claim C1. In multi-mode, for a content length \<open>L > 0\<close> and a concurrency \<open>N \<ge> 1\<close>,
  when no part file exists yet (and the cache directory can be created, the request can
  be built and \<open>Stop\<close> is not called before the last worker is started), there are \<open>N\<close>
  workers; worker \<open>i\<close> sends at most one GET, and the offsets its Range header
  \<open>bytes=lo-(hi-1)\<close> asks for are those of the half-open range \<open>[i * (L / N), (i + 1) * (L / N))\<close>,
  up to \<open>L\<close> for the last worker. The sets of two different workers are disjoint and
  the union of all of them is \<open>[0, L)\<close>: every byte is requested exactly once.
\<close>

theorem multi_ranges_partition:
  assumes "0 < L" and "1 \<le> concurrency d" and "stopSignal d = Open"
      and "\<not> fails w MkdirAllPartDir" and "\<not> request_err w"
      and "\<forall>i. read_part w i = None"
      and "\<forall>k. int k < concurrency d \<longrightarrow> stop_at w \<noteq> Some k"
  shows "case multiDownload w d L of (r, d', evs, trs) \<Rightarrow>
           length trs = nat (concurrency d) \<and>
           (\<forall>i < length trs.
              length (requested (trs ! i)) \<le> 1 \<and>
              span (trs ! i) =
                {int i * (L div concurrency d) ..<
                   (if int i = concurrency d - 1 then L
                    else (int i + 1) * (L div concurrency d))}) \<and>
           (\<forall>i < length trs. \<forall>j < length trs. i \<noteq> j \<longrightarrow>
              span (trs ! i) \<inter> span (trs ! j) = {}) \<and>
           (\<Union>i < length trs. span (trs ! i)) = {0..<L}"
proof -
  let ?n = "concurrency d"
  let ?fn = "FileName (options d)"
  let ?d1 = "d\<lparr>sw := (sw d)\<lparr>total := L\<rparr>\<rparr>"
  let ?dir = "getPartDir ?d1 ?fn"
  let ?d2 = "?d1\<lparr>partDir := ?dir\<rparr>"
  let ?ps = "L div ?n"
  have gd: "go_div L ?n = ?ps" using assms(1,2) by (intro go_div_pos) simp_all
  obtain st d3 e3 trs where sp: "spawn w ?n ?d2 L ?ps 0 0 = (st, d3, e3, trs)"
    by (cases "spawn w ?n ?d2 L ?ps 0 0") auto
  have o: "stopSignal ?d2 = Open" "concurrency ?d2 = ?n" using assms(3) by simp_all
  from spawn_ranges [OF assms(5,6,7) o sp]
  have r: "\<not> st" "length trs = nat ?n"
    "\<forall>k < length trs.
        span (trs ! k) =
          {int k * ?ps ..< (if int k = ?n - 1 then L else (int k + 1) * ?ps)} \<and>
        length (requested (trs ! k)) \<le> 1"
    by simp_all
  obtain r4 d4 e4 where aj: "afterJoin w d3 ?fn ?dir = (r4, d4, e4)"
    by (cases "afterJoin w d3 ?fn ?dir") auto
  have res: "snd (snd (snd (multiDownload w d L))) = trs"
    using assms(1,2,4) sp aj r(1) by (simp add: multiDownload_def Let_def gd)
  have S: "\<And>k. k < nat ?n \<Longrightarrow>
             span (trs ! k) =
               {int k * ?ps ..< (if int k = ?n - 1 then L else (int k + 1) * ?ps)}"
    using r(2,3) by simp
  from partition_ranges [of L ?n "\<lambda>k. span (trs ! k)", OF assms(1,2) S]
  have p: "(\<forall>i < nat ?n. \<forall>j < nat ?n. i \<noteq> j \<longrightarrow> span (trs ! i) \<inter> span (trs ! j) = {})"
    "(\<Union>i < nat ?n. span (trs ! i)) = {0..<L}" by simp_all
  show ?thesis
    using res r(2,3) p by (simp add: case_prod_beta)
qed


theorem multi_ranges_partition_witness:
  "map requested example_traces = [[(0, 2)], [(3, 5)], [(6, 9)]] \<and>
   (\<Union>i<3. span (example_traces ! i)) = {0..<10}"
proof -
  have run: "map requested example_traces = [[(0, 2)], [(3, 5)], [(6, 9)]]"
    by (simp add: example_traces_def example_world_def example_downloader_def NewDownloader_def
          filepath_Base_def DefaultBaseDir_def multiDownload_def go_div_def getPartDir_def
          filepath_Join_def getPartFilename_def itoa_def utoa.simps digit_def spawn.simps
          worker_def readResume_def downloadPartial_def fetchPart_def partFlags_def
          CopyBuffer_def Write_def afterJoin_def arrive_def merge_def mergeLoop.simps
          mergePart_def requested_def Let_def)
  have h: "(0::int) < 10" "1 \<le> concurrency example_downloader"
    "stopSignal example_downloader = Open" "\<not> fails example_world MkdirAllPartDir"
    "\<not> request_err example_world" "\<forall>i. read_part example_world i = None"
    "\<forall>k. int k < concurrency example_downloader \<longrightarrow> stop_at example_world \<noteq> Some k"
    by (simp_all add: example_downloader_def NewDownloader_def example_world_def)
  have n: "nat (concurrency example_downloader) = 3"
    by (simp add: example_downloader_def NewDownloader_def)
  note t = multi_ranges_partition [OF h, unfolded case_prod_beta, folded example_traces_def]
  have len: "length example_traces = 3"
    using t [THEN conjunct1] n by simp
  have "(\<Union>i<length example_traces. span (example_traces ! i)) = {0..<10}"
    using t [THEN conjunct2, THEN conjunct2, THEN conjunct2] .
  then have "(\<Union>i<3. span (example_traces ! i)) = {0..<10}"
    unfolding len .
  with run show ?thesis by (rule conjI)
qed

subsection \<open>Resuming a part\<close>

text \<open>
  Claim C2. When resume is enabled and the file of part \<open>i\<close> holds \<open>n\<close> bytes, the worker
  first writes these \<open>n\<close> bytes to the selfWriter (which adds \<open>n\<close> to \<open>loaded\<close> and calls
  on\_progress) and then calls downloadPartial for the effective range \<open>[lo + n, hi)\<close>: the
  only GET of the worker asks for \<open>bytes=(lo+n)-(hi-1)\<close>. When the effective range is
  empty (\<open>n \<ge> hi - lo\<close>), downloadPartial returns \<open>nil\<close> at once: it leaves the state as
  it is (no cancel function is registered) and causes no event (no HTTP request, no call
  on the part file).
\<close>

theorem resume_effective_range:
  assumes "resume d" and "read_part w i = Some content" and "\<not> request_err w"
      and "worker w d L ps i lo = (d', evs)"
      and "hi = (if int i = concurrency d - 1 then L else lo + ps)"
      and "n = int (length content)"
      and "fed = d\<lparr>sw := (sw d)\<lparr>accPacketSize := accPacketSize (sw d) + n,
                                 loaded := loaded (sw d) + n\<rparr>\<rparr>"
  shows "evs =
           OsReadFile (getPartFilename d (FileName (options d)) i) #
           SinkWrite (length content) #
           (if onProgress (sw d)
            then [OnProgress (loaded (sw d) + n) (total (sw d)) (rate (sw d))] else []) @
           snd (snd (downloadPartial w fed (lo + n) hi i)) \<and>
         d' = fst (snd (downloadPartial w fed (lo + n) hi i)) \<and>
         requested evs = (if lo + n < hi then [(lo + n, hi - 1)] else []) \<and>
         (hi - lo \<le> n \<longrightarrow>
            downloadPartial w fed (lo + n) hi i = (None, fed, []) \<and> d' = fed \<and>
            evs =
              OsReadFile (getPartFilename d (FileName (options d)) i) #
              SinkWrite (length content) #
              (if onProgress (sw d)
               then [OnProgress (loaded (sw d) + n) (total (sw d)) (rate (sw d))] else []))"
proof -
  have rr: "readResume w d i =
         (n, fed,
          OsReadFile (getPartFilename d (FileName (options d)) i) #
          SinkWrite (length content) #
          (if onProgress (sw d)
           then [OnProgress (loaded (sw d) + n) (total (sw d)) (rate (sw d))] else []))"
    using assms(1,2,6,7) by (simp add: readResume_def Write_def Let_def)
  obtain r d2 e2 where dp: "downloadPartial w fed (lo + n) hi i = (r, d2, e2)"
    by (cases "downloadPartial w fed (lo + n) hi i") auto
  have wk: "d' = d2"
    "evs = OsReadFile (getPartFilename d (FileName (options d)) i) #
           SinkWrite (length content) #
           (if onProgress (sw d)
            then [OnProgress (loaded (sw d) + n) (total (sw d)) (rate (sw d))] else []) @ e2"
    using assms(4,5) rr dp by (auto simp add: worker_def Let_def)
  have rq: "requested evs = (if lo + n < hi then [(lo + n, hi - 1)] else [])"
    using requested_worker [OF assms(3,4)] rr assms(5) by (simp add: Let_def)
  have em: "hi - lo \<le> n \<longrightarrow> downloadPartial w fed (lo + n) hi i = (None, fed, [])"
    by (simp add: downloadPartial_def)
  from wk rq em dp show ?thesis by auto
qed


theorem resume_effective_range_witness:
  "snd (worker resume_world resuming_downloader 10 3 1 3) =
     [OsReadFile ''c/file.bin_1'', SinkWrite 2, OnProgress 2 0 ''0.00 MB/s'',
      MapStore ''c/file.bin_1'' (PartCtx 1), HttpGet ''http://host/file.bin'' (Some (5, 5)),
      OsOpenFile ''c/file.bin_1'' [O_CREATE, O_WRONLY, O_APPEND],
      FileWrite ''c/file.bin_1'' 1, SinkWrite 1, OnProgress 3 0 ''0.00 MB/s'',
      FileClose ''c/file.bin_1'', BodyClose, MapDelete ''c/file.bin_1''] \<and>
   snd (worker resume_world resuming_downloader 10 3 0 0) =
     [OsReadFile ''c/file.bin_0'', SinkWrite 3, OnProgress 3 0 ''0.00 MB/s'']"
proof -
  have h: "resume resuming_downloader" "read_part resume_world 0 = Some ''012''"
    "\<not> request_err resume_world"
    by (simp_all add: resuming_downloader_def reporting_downloader_def example_downloader_def
          OnProgress_set_def NewDownloader_def resume_world_def example_world_def)
  have w: "worker resume_world resuming_downloader 10 3 0 0 =
             (fst (worker resume_world resuming_downloader 10 3 0 0),
              snd (worker resume_world resuming_downloader 10 3 0 0))"
    by simp
  have c: "concurrency resuming_downloader = 3" "onProgress (sw resuming_downloader)"
    "loaded (sw resuming_downloader) = 0" "total (sw resuming_downloader) = 0"
    "rate (sw resuming_downloader) = ''0.00 MB/s''"
    "getPartFilename resuming_downloader (FileName (options resuming_downloader)) 0 =
       ''c/file.bin_0''"
    by (simp_all add: resuming_downloader_def reporting_downloader_def example_downloader_def
          OnProgress_set_def NewDownloader_def filepath_Base_def getPartFilename_def
          filepath_Join_def itoa_def utoa.simps digit_def)
  note t = resume_effective_range [OF h w refl refl refl]
  have full: "snd (worker resume_world resuming_downloader 10 3 0 0) =
     [OsReadFile ''c/file.bin_0'', SinkWrite 3, OnProgress 3 0 ''0.00 MB/s'']"
    using t [THEN conjunct2, THEN conjunct2, THEN conjunct2] by (simp add: c)
  have part: "snd (worker resume_world resuming_downloader 10 3 1 3) =
     [OsReadFile ''c/file.bin_1'', SinkWrite 2, OnProgress 2 0 ''0.00 MB/s'',
      MapStore ''c/file.bin_1'' (PartCtx 1), HttpGet ''http://host/file.bin'' (Some (5, 5)),
      OsOpenFile ''c/file.bin_1'' [O_CREATE, O_WRONLY, O_APPEND],
      FileWrite ''c/file.bin_1'' 1, SinkWrite 1, OnProgress 3 0 ''0.00 MB/s'',
      FileClose ''c/file.bin_1'', BodyClose, MapDelete ''c/file.bin_1'']"
    by (simp add: resume_world_def example_world_def resuming_downloader_def
          reporting_downloader_def example_downloader_def OnProgress_set_def NewDownloader_def
          filepath_Base_def getPartFilename_def filepath_Join_def itoa_def utoa.simps digit_def
          worker_def readResume_def downloadPartial_def fetchPart_def partFlags_def
          CopyBuffer_def Write_def Let_def)
  from part full show ?thesis by (rule conjI)
qed

subsection \<open>A stop seen after the join\<close>

lemma worker_event_simps [simp]:
  "worker_event (OsReadFile p)" "worker_event (SinkWrite n)" "worker_event (OnProgress l t r)"
  "worker_event (MapStore k c)" "worker_event (MapDelete k)" "worker_event (HttpGet u rg)"
  "worker_event BodyClose" "worker_event (OsOpenFile p fl)" "worker_event (FileWrite p n)"
  "worker_event (FileClose p)"
  by (simp_all add: worker_event_def)

lemma is_cancel_simps [simp]: "is_cancel (CancelCalled c)"
  by (simp add: is_cancel_def)

lemma cancel_events_quiet:
  "list_all is_cancel evs \<Longrightarrow>
     filter is_final evs = [] \<and> filter is_removal evs = [] \<and> WgWait \<notin> set evs"
  by (induction evs) (auto simp add: is_cancel_def is_final_def is_removal_def split: event.splits)

lemma worker_events_quiet:
  "list_all worker_event evs \<Longrightarrow> filter is_final evs = [] \<and> filter is_removal evs = []"
  by (induction evs) (auto simp add: worker_event_def is_final_def is_removal_def split: event.splits)

lemma Write_events: "list_all worker_event (snd (snd (Write s p)))"
  by (simp add: Write_def Let_def)

lemma copyChunks_events: "list_all worker_event (snd (copyChunks f s cs))"
proof (induction cs arbitrary: s)
  case Nil
  then show ?case by simp
next
  case (Cons c cs)
  obtain n s1 e1 where w: "Write s c = (n, s1, e1)" by (cases "Write s c") auto
  have "list_all worker_event e1" using Write_events [of s c] w by simp
  moreover have "list_all worker_event (snd (copyChunks f s1 cs))" by (rule Cons.IH)
  ultimately show ?case using w by (simp add: case_prod_beta)
qed

lemma CopyBuffer_events: "list_all worker_event (snd (snd (CopyBuffer f s cs e)))"
  using copyChunks_events [of f s cs]
  by (cases e) (simp_all add: CopyBuffer_def case_prod_beta)

lemma fetchPart_events: "list_all worker_event (snd (snd (fetchPart w d a b i pf)))"
proof (cases "get_part w i")
  case GetErr
  then show ?thesis by (simp add: fetchPart_def Let_def)
next
  case (GetOk status len chunks e)
  have "list_all worker_event (snd (snd (CopyBuffer pf (sw d) chunks e)))"
    by (rule CopyBuffer_events)
  with GetOk show ?thesis
    by (simp add: fetchPart_def Let_def case_prod_beta)
qed

lemma downloadPartial_events: "list_all worker_event (snd (snd (downloadPartial w d a b i)))"
proof (cases "b \<le> a")
  case True
  then show ?thesis by (simp add: downloadPartial_def)
next
  case False
  let ?pf = "getPartFilename d (FileName (options d)) i"
  let ?d1 = "d\<lparr>mCancelFunc := AList.update ?pf (PartCtx i) (mCancelFunc d)\<rparr>"
  have "list_all worker_event (snd (snd (fetchPart w ?d1 a b i ?pf)))"
    by (rule fetchPart_events)
  with False show ?thesis
    by (simp add: downloadPartial_def Let_def case_prod_beta)
qed

lemma readResume_events: "list_all worker_event (snd (snd (readResume w d i)))"
  using Write_events
  by (auto simp add: readResume_def Let_def case_prod_beta split: option.splits)

lemma worker_events: "list_all worker_event (snd (worker w d L ps i rs))"
  using readResume_events [of w d i] downloadPartial_events
  by (simp add: worker_def Let_def case_prod_beta)

lemma arrive_events: "list_all is_cancel (snd (arrive w k d))"
  by (cases "stopSignal d") (auto simp add: arrive_def Stop_def list_all_iff)

lemma arrive_fields:
  assumes "arrive w k d = (d', evs)"
  shows "onDownloadCanceled d' = onDownloadCanceled d" "options d' = options d"
    "concurrency d' = concurrency d"
  using assms
  by (cases "stopSignal d"; auto simp add: arrive_def Stop_def split: if_splits)+

lemma worker_keeps:
  assumes "worker w d L ps i rs = (d', evs)"
  shows "onDownloadCanceled d' = onDownloadCanceled d" "options d' = options d"
    "concurrency d' = concurrency d"
  using worker_fields [OF assms] by simp_all

lemma spawn_events:
  "spawn w n d L ps i rs = (stopped, d', evs, trs) \<Longrightarrow>
     list_all is_cancel evs \<and> list_all (list_all worker_event) trs \<and>
     onDownloadCanceled d' = onDownloadCanceled d \<and> options d' = options d \<and>
     concurrency d' = concurrency d"
proof (induction w n d L ps i rs arbitrary: stopped d' evs trs rule: spawn.induct)
  case (1 w n d L ps i rs)
  show ?case
  proof (cases "int i < n")
    case False
    with "1.prems" show ?thesis by (subst (asm) spawn.simps) simp
  next
    case True
    obtain d0 e0 where ar: "arrive w i d = (d0, e0)" by (cases "arrive w i d") auto
    have a: "list_all is_cancel e0" using arrive_events [of w i d] ar by simp
    note af = arrive_fields [OF ar]
    show ?thesis
    proof (cases "stopSignal d0 = Closed")
      case c: True
      with "1.prems" True ar a af show ?thesis by (subst (asm) spawn.simps) auto
    next
      case c: False
      obtain d1 tr where wk: "worker w d0 L ps i rs = (d1, tr)"
        by (cases "worker w d0 L ps i rs") auto
      obtain st d2 e2 trs2 where sp: "spawn w n d1 L ps (Suc i) (rs + ps) = (st, d2, e2, trs2)"
        by (cases "spawn w n d1 L ps (Suc i) (rs + ps)") auto
      have b: "list_all worker_event tr" using worker_events [of w d0 L ps i rs] wk by simp
      note wf = worker_keeps [OF wk]
      from "1.IH" [OF True ar [symmetric] c wk [symmetric] sp]
      have ih: "list_all is_cancel e2" "list_all (list_all worker_event) trs2"
        "onDownloadCanceled d2 = onDownloadCanceled d1" "options d2 = options d1"
        "concurrency d2 = concurrency d1" by auto
      show ?thesis
        using "1.prems" True ar c wk sp a b af wf ih by (subst (asm) spawn.simps) auto
    qed
  qed
qed

lemma afterJoin_stopped:
  assumes "afterJoin w d fn dir = (r, d', evs)" and "stopSignal d' = Closed"
  shows "r = None \<and>
         filter is_final evs = (if onDownloadCanceled d then [OnCanceled fn] else []) \<and>
         filter is_removal evs = []"
proof -
  obtain d1 e1 where ar: "arrive w (nat (concurrency d)) d = (d1, e1)"
    by (cases "arrive w (nat (concurrency d)) d") auto
  have "list_all is_cancel e1" using arrive_events [of w "nat (concurrency d)" d] ar by simp
  then have q: "filter is_final e1 = []" "filter is_removal e1 = []"
    using cancel_events_quiet by blast+
  note af = arrive_fields [OF ar]
  show ?thesis
  proof (cases "stopSignal d1 = Closed")
    case True
    with assms ar q af show ?thesis
      by (auto simp add: afterJoin_def is_final_def is_removal_def)
  next
    case False
    then have "stopSignal d' \<noteq> Closed"
      using assms(1) ar by (auto simp add: afterJoin_def split: prod.splits option.splits)
    with assms(2) show ?thesis by simp
  qed
qed

lemma multiDownload_stopped:
  assumes "multiDownload w d L = (r, d', evs, trs)"
      and "WgWait \<in> set evs" and "stopSignal d' = Closed"
  shows "r = None \<and>
         filter is_final evs =
           (if onDownloadCanceled d then [OnCanceled (FileName (options d))] else []) \<and>
         filter is_removal evs = [] \<and>
         list_all (\<lambda>tr. filter is_final tr = [] \<and> filter is_removal tr = []) trs"
proof -
  let ?fn = "FileName (options d)"
  let ?d1 = "d\<lparr>sw := (sw d)\<lparr>total := L\<rparr>\<rparr>"
  let ?dir = "getPartDir ?d1 ?fn"
  let ?d2 = "?d1\<lparr>partDir := ?dir\<rparr>"
  let ?e1 = "if onDownloadStart d then [OnStart L ?fn] else []"
  have early: "\<not> (L \<le> 0 \<or> concurrency d = 0 \<or> fails w MkdirAllPartDir)"
  proof
    assume "L \<le> 0 \<or> concurrency d = 0 \<or> fails w MkdirAllPartDir"
    with assms(1) have "WgWait \<notin> set evs"
      by (auto simp add: multiDownload_def Let_def split: if_splits)
    with assms(2) show False by simp
  qed
  obtain st d3 e3 trs3 where
    sp: "spawn w (concurrency d) ?d2 L (go_div L (concurrency d)) 0 0 = (st, d3, e3, trs3)"
    by (cases "spawn w (concurrency d) ?d2 L (go_div L (concurrency d)) 0 0") auto
  from spawn_events [OF sp]
  have s: "list_all is_cancel e3" "list_all (list_all worker_event) trs3"
    "onDownloadCanceled d3 = onDownloadCanceled d" "options d3 = options d" by simp_all
  have q3: "filter is_final e3 = []" "filter is_removal e3 = []" "WgWait \<notin> set e3"
    using cancel_events_quiet [OF s(1)] by blast+
  have nst: "\<not> st"
  proof
    assume st
    with assms(1) early sp have "evs = ?e1 @ [OsMkdirAll ?dir] @ e3"
      by (auto simp add: multiDownload_def Let_def)
    with q3(3) have "WgWait \<notin> set evs" by auto
    with assms(2) show False by simp
  qed
  obtain r4 d4 e4 where aj: "afterJoin w d3 ?fn ?dir = (r4, d4, e4)"
    by (cases "afterJoin w d3 ?fn ?dir") auto
  have res: "r = r4" "d' = d4" "evs = ?e1 @ [OsMkdirAll ?dir] @ e3 @ [WgWait] @ e4" "trs = trs3"
    using assms(1) early sp nst aj by (auto simp add: multiDownload_def Let_def)
  from afterJoin_stopped [OF aj] assms(3) res(2)
  have j: "r4 = None"
    "filter is_final e4 = (if onDownloadCanceled d3 then [OnCanceled ?fn] else [])"
    "filter is_removal e4 = []" by simp_all
  have t: "list_all (\<lambda>tr. filter is_final tr = [] \<and> filter is_removal tr = []) trs3"
    using s(2) worker_events_quiet by (induction trs3) auto
  show ?thesis
    using res j q3 s(3) t by (simp add: is_final_def is_removal_def)
qed

text \<open>
  Claim C3. In a multi-mode run that has joined its workers (the event \<open>WgWait\<close>) and finds
  the stop signal raised after the join, \<open>Start\<close> returns \<open>nil\<close>; on\_canceled is called
  once with the file name when it is registered, and not at all otherwise; on\_finished
  is not called; and nothing is removed, by the calling goroutine or by a worker: the
  part files stay in place.
\<close>

theorem cancel_after_join:
  assumes "url d \<noteq> []" and "head w = HeadOk 200 ''bytes'' L"
      and "Start w d = (r, d', evs, trs)"
      and "WgWait \<in> set evs" and "stopSignal d' = Closed"
  shows "r = None \<and>
         filter is_final evs =
           (if onDownloadCanceled d then [OnCanceled (FileName (options d))] else []) \<and>
         filter is_removal evs = [] \<and>
         list_all (\<lambda>tr. filter is_final tr = [] \<and> filter is_removal tr = []) trs"
proof -
  define d0 where "d0 = (case stopSignal d of Closed \<Rightarrow> init d | Open \<Rightarrow> d)"
  define d1 where "d1 = d0\<lparr>sw := (sw d0)\<lparr>rate := ''0.00 MB/s''\<rparr>\<rparr>"
  have f: "url d0 = url d" "options d1 = options d" "onDownloadCanceled d1 = onDownloadCanceled d"
    by (cases "stopSignal d"; simp add: d0_def d1_def init_def)+
  obtain r2 d2 e2 t2 where m: "multiDownload w d1 L = (r2, d2, e2, t2)"
    by (cases "multiDownload w d1 L") auto
  have res: "r = r2" "d' = d2" "evs = [HttpHead (url d0), GoCalcRate] @ e2 @ [CancelRate, BodyClose]"
    "trs = t2"
    using assms(1,2,3) f(1) m
    by (auto simp add: Start_def download_def Let_def d0_def [symmetric] d1_def [symmetric])
  have "WgWait \<in> set e2" using assms(4) res(3) by auto
  from multiDownload_stopped [OF m this] assms(5) res(2)
  have "r2 = None \<and>
         filter is_final e2 =
           (if onDownloadCanceled d1 then [OnCanceled (FileName (options d1))] else []) \<and>
         filter is_removal e2 = [] \<and>
         list_all (\<lambda>tr. filter is_final tr = [] \<and> filter is_removal tr = []) t2"
    by simp
  then show ?thesis
    using res f by (simp add: is_final_def is_removal_def)
qed


theorem cancel_after_join_witness:
  "fst (Start stopping_world observed_downloader) = None \<and>
   stopSignal (fst (snd (Start stopping_world observed_downloader))) = Closed \<and>
   fst (snd (snd (Start stopping_world observed_downloader))) =
     [HttpHead ''http://host/file.bin'', GoCalcRate,
      OsMkdirAll ''downloader_cache/file.bin'', WgWait, OnCanceled ''file.bin'',
      CancelRate, BodyClose] \<and>
   filter is_removal (concat (snd (snd (snd (Start stopping_world observed_downloader))))) = []"
proof -
  let ?run = "Start stopping_world observed_downloader"
  have evs: "fst (snd (snd ?run)) =
     [HttpHead ''http://host/file.bin'', GoCalcRate,
      OsMkdirAll ''downloader_cache/file.bin'', WgWait, OnCanceled ''file.bin'',
      CancelRate, BodyClose]"
    and st: "stopSignal (fst (snd ?run)) = Closed"
    by (simp_all add: stopping_world_def example_world_def observed_downloader_def
          example_downloader_def NewDownloader_def filepath_Base_def DefaultBaseDir_def
          Start_def download_def multiDownload_def go_div_def getPartDir_def filepath_Join_def
          getPartFilename_def itoa_def utoa.simps digit_def spawn.simps worker_def
          readResume_def downloadPartial_def fetchPart_def partFlags_def CopyBuffer_def
          Write_def afterJoin_def arrive_def Stop_def Let_def)
  have h: "url observed_downloader \<noteq> []" "head stopping_world = HeadOk 200 ''bytes'' 10"
    by (simp_all add: stopping_world_def example_world_def observed_downloader_def
          example_downloader_def NewDownloader_def)
  have r: "?run = (fst ?run, fst (snd ?run), fst (snd (snd ?run)), snd (snd (snd ?run)))"
    by simp
  have j: "WgWait \<in> set (fst (snd (snd ?run)))"
    unfolding evs by simp
  note t = cancel_after_join [OF h r j st]
  have none: "fst ?run = None" using t by (rule conjunct1)
  have "list_all (\<lambda>tr. filter is_final tr = [] \<and> filter is_removal tr = [])
          (snd (snd (snd ?run)))"
    using t [THEN conjunct2, THEN conjunct2, THEN conjunct2] .
  then have rem: "filter is_removal (concat (snd (snd (snd ?run)))) = []"
    by (induction "snd (snd (snd ?run))") (simp_all add: list_all_iff filter_concat)
  from none st evs rem show ?thesis by simp
qed

text \<open>
  For comparison, a stop seen by the check before the second spawn: multiDownload returns
  \<open>nil\<close> from inside the loop, without waiting for the worker it started and without
  calling on\_canceled.
\<close>

lemma stop_in_spawn_loop_example:
  "fst (Start (example_world\<lparr>stop_at := Some 1\<rparr>) observed_downloader) = None \<and>
   fst (snd (snd (Start (example_world\<lparr>stop_at := Some 1\<rparr>) observed_downloader))) =
     [HttpHead ''http://host/file.bin'', GoCalcRate,
      OsMkdirAll ''downloader_cache/file.bin'', CancelRate, BodyClose] \<and>
   length (snd (snd (snd (Start (example_world\<lparr>stop_at := Some 1\<rparr>) observed_downloader)))) = 1"
  by (simp add: example_world_def observed_downloader_def
        example_downloader_def NewDownloader_def filepath_Base_def DefaultBaseDir_def
        Start_def download_def multiDownload_def go_div_def getPartDir_def filepath_Join_def
        getPartFilename_def itoa_def utoa.simps digit_def spawn.simps worker_def
        readResume_def downloadPartial_def fetchPart_def partFlags_def CopyBuffer_def
        Write_def afterJoin_def arrive_def Stop_def Let_def)

subsection \<open>Rate strings\<close>

lemma is_digit_digit: "is_digit (digit d)"
proof -
  have "d mod 10 < length ''0123456789''" by simp
  then have "''0123456789'' ! (d mod 10) \<in> set ''0123456789''" by (rule nth_mem)
  then show ?thesis by (simp only: is_digit_def digit_def)
qed

lemma utoa_digits: "utoa n \<noteq> [] \<and> list_all is_digit (utoa n)"
proof (induction n rule: utoa.induct)
  case (1 n)
  show ?case
  proof (cases "n < 10")
    case True
    then show ?thesis by (subst (1 2) utoa.simps) (simp add: is_digit_digit)
  next
    case False
    with "1.IH" show ?thesis by (subst (1 2) utoa.simps) (simp add: is_digit_digit)
  qed
qed

lemma not_digit: "\<not> is_digit CHR ''.''" "\<not> is_digit CHR ''-''"
  by (simp_all add: is_digit_def)

lemma rate_regex_shape:
  assumes "ds \<noteq> []" and "list_all is_digit ds" and "is_digit a" and "is_digit b"
      and "u = ''B/s'' \<or> u = ''KB/s'' \<or> u = ''MB/s'' \<or> u = ''GB/s''"
      and that: "sg = [] \<or> sg = ''-''"
  shows "rate_regex (sg @ ds @ ''.'' @ [a, b] @ '' '' @ u)"
proof -
  let ?t = "ds @ CHR ''.'' # a # b # CHR '' '' # u"
  have all: "\<And>x. x \<in> set ds \<Longrightarrow> is_digit x" using assms(2) by (simp add: list_all_iff)
  have tw: "takeWhile is_digit ?t = ds"
    using all by (simp add: takeWhile_append2 not_digit)
  have dw: "dropWhile is_digit ?t = CHR ''.'' # a # b # CHR '' '' # u"
    using all by (simp add: dropWhile_append2 not_digit)
  obtain c cs where ds: "ds = c # cs" using assms(1) by (cases ds) auto
  then have "is_digit c" using all by simp
  then have c: "c \<noteq> CHR ''-''" using not_digit(2) by auto
  have strip: "(case sg @ ?t of [] \<Rightarrow> [] | c # r \<Rightarrow> if c = CHR ''-'' then r else sg @ ?t) = ?t"
    using that c ds by auto
  have "rate_regex (sg @ ?t)"
    unfolding rate_regex_def strip Let_def tw dw using assms by simp
  then show ?thesis by simp
qed

lemma sprintf_2f_regex:
  assumes "u = ''B/s'' \<or> u = ''KB/s'' \<or> u = ''MB/s'' \<or> u = ''GB/s''"
  shows "rate_regex (sprintf_2f x y @ '' '' @ u)"
proof -
  let ?h = "roundHalfEven (100 * nat \<bar>x\<bar>) (nat y)"
  have "rate_regex ((if x < 0 then ''-'' else []) @ utoa (?h div 100) @ ''.'' @
          [digit (?h div 10), digit ?h] @ '' '' @ u)"
    using utoa_digits [of "?h div 100"] assms
    by (intro rate_regex_shape) (simp_all add: is_digit_digit)
  then show ?thesis by (simp add: sprintf_2f_def Let_def)
qed

lemma formatRate_regex: "rate_regex (formatRate b)"
  using sprintf_2f_regex [of "''GB/s''" b GB] sprintf_2f_regex [of "''MB/s''" b MB]
    sprintf_2f_regex [of "''KB/s''" b KB] sprintf_2f_regex [of "''B/s''" b 1]
  by (simp add: formatRate_def)

lemma initial_rate_regex: "rate_regex ''0.00 MB/s''"
  by (simp add: rate_regex_def is_digit_def)

lemma tick_rate: "rate_regex (rate (tick s))"
  by (simp add: tick_def Let_def formatRate_regex)

lemma rateLoop_regex: "list_all rate_regex (snd (rateLoop s es))"
proof (induction s es rule: rateLoop.induct)
  case (1 s)
  then show ?case by simp
next
  case (2 s es)
  then show ?case by (simp add: Let_def case_prod_beta tick_rate)
next
  case (3 s p es)
  obtain n s1 evs where w: "Write s p = (n, s1, evs)" by (cases "Write s p") auto
  with "3.IH" [OF w [symmetric] refl] show ?case by simp
qed

lemma dropBits_small: "m < 2 ^ 53 \<Longrightarrow> dropBits m = 0"
  by (subst dropBits.simps) simp

lemma float64_exact: "\<bar>x\<bar> < 2 ^ 53 \<Longrightarrow> float64 x = x"
proof -
  assume a: "\<bar>x\<bar> < 2 ^ 53"
  then have "nat \<bar>x\<bar> < 2 ^ 53" by (simp add: nat_less_iff)
  then have "dropBits (nat \<bar>x\<bar>) = 0" by (rule dropBits_small)
  then have "float64 x = sgn x * \<bar>x\<bar>"
    by (simp add: float64_def roundHalfEven_def Let_def)
  then show ?thesis by (simp add: mult_sgn_abs)
qed

text \<open>
  Claim C9. The first string that calcRate stores is \<open>0.00 MB/s\<close>, and this string and
  every string stored at a tick, under every schedule of ticks and writes, match the
  regular expression \<open>-?\d+\.\d{2} (B|KB|MB|GB)/s\<close>. The unit is chosen by the thresholds
  \<open>2^30\<close>, \<open>2^20\<close> and \<open>2^10\<close> (GB/s, MB/s, KB/s, else B/s). A tick reads the window
  count and sets it to 0 in one step, and formats the count, converted to float64,
  times 4; the conversion is exact below \<open>2^53\<close>. (The period of 250 ms is a matter of
  real time and not part of the model.)
\<close>

theorem rate_strings:
  "hd (snd (calcRate s es)) = ''0.00 MB/s'' \<and>
   list_all rate_regex (snd (calcRate s es)) \<and>
   formatRate b =
     (if 2 ^ 30 \<le> b then sprintf_2f b (2 ^ 30) @ '' GB/s''
      else if 2 ^ 20 \<le> b then sprintf_2f b (2 ^ 20) @ '' MB/s''
      else if 2 ^ 10 \<le> b then sprintf_2f b (2 ^ 10) @ '' KB/s''
      else sprintf_2f b 1 @ '' B/s'') \<and>
   accPacketSize (tick s) = 0 \<and>
   rate (tick s) = formatRate (float64 (accPacketSize s) * 4) \<and>
   (\<bar>accPacketSize s\<bar> < 2 ^ 53 \<longrightarrow> rate (tick s) = formatRate (accPacketSize s * 4))"
proof -
  have a: "hd (snd (calcRate s es)) = ''0.00 MB/s''"
    by (simp add: calcRate_def Let_def case_prod_beta)
  have b: "list_all rate_regex (snd (calcRate s es))"
    using rateLoop_regex [of "s\<lparr>rate := ''0.00 MB/s''\<rparr>" es]
    by (simp add: calcRate_def Let_def case_prod_beta initial_rate_regex)
  have c: "formatRate b =
     (if 2 ^ 30 \<le> b then sprintf_2f b (2 ^ 30) @ '' GB/s''
      else if 2 ^ 20 \<le> b then sprintf_2f b (2 ^ 20) @ '' MB/s''
      else if 2 ^ 10 \<le> b then sprintf_2f b (2 ^ 10) @ '' KB/s''
      else sprintf_2f b 1 @ '' B/s'')"
    by (simp add: formatRate_def GB_def MB_def KB_def)
  have d: "accPacketSize (tick s) = 0" "rate (tick s) = formatRate (float64 (accPacketSize s) * 4)"
    by (simp_all add: tick_def Let_def)
  have e: "\<bar>accPacketSize s\<bar> < 2 ^ 53 \<longrightarrow> rate (tick s) = formatRate (accPacketSize s * 4)"
    using d(2) float64_exact by simp
  from a b c d e show ?thesis by blast
qed


theorem rate_strings_witness:
  "snd (calcRate (sw example_downloader)
          [Written (replicate 300 CHR ''x''), Tick, Written ''0123456789'', Tick, Tick]) =
     [''0.00 MB/s'', ''1.17 KB/s'', ''40.00 B/s'', ''0.00 B/s''] \<and>
   list_all rate_regex [''0.00 MB/s'', ''1.17 KB/s'', ''40.00 B/s'', ''0.00 B/s'']"
proof -
  let ?es = "[Written (replicate 300 CHR ''x''), Tick, Written ''0123456789'', Tick, Tick]"
  have d: "dropBits 300 = 0" "dropBits 10 = 0" "dropBits 0 = 0"
    by (simp_all add: dropBits.simps)
  have run: "snd (calcRate (sw example_downloader) ?es) =
     [''0.00 MB/s'', ''1.17 KB/s'', ''40.00 B/s'', ''0.00 B/s'']"
    by (simp add: calcRate_def Write_def tick_def float64_def d roundHalfEven_def
          formatRate_def GB_def MB_def KB_def sprintf_2f_def utoa.simps digit_def
          example_downloader_def NewDownloader_def Let_def)
  from rate_strings [of "sw example_downloader" ?es 0]
  have "list_all rate_regex (snd (calcRate (sw example_downloader) ?es))"
    by blast
  with run show ?thesis by simp
qed

end
